theory Spec2Isabelle
  imports Complex_Main
begin

section \<open>ChromeSort: the ball-sorting puzzle engine\<close>

text \<open>
  A shallow embedding of the game logic of the repository: the difficulty model
  (\<^verbatim>\<open>constants.ts\<close>), the rule engine and the level generator
  (\<^verbatim>\<open>utils/gameLogic.ts\<close>) and the session handlers of the \<^verbatim>\<open>App\<close> component.
  JavaScript numbers that hold counts and indices are \<open>nat\<close>, the other integral
  numbers are \<open>int\<close>; the products with \<^verbatim>\<open>1.5\<close> and with \<^verbatim>\<open>Math.random()\<close> are
  taken in \<open>real\<close>.
\<close>

subsection \<open>Data model (\<^verbatim>\<open>types.ts\<close>)\<close>

type_synonym ColorId = int

record Ball =
  id_ball :: string
  colorId :: ColorId

record TubeData =
  id_tube :: int
  balls :: "Ball list"
  capacity :: nat

record LevelConfig =
  numColors :: int
  numEmpty :: int
  shuffles :: int
  maxMoves :: int
  timeLimit :: int

record GameState =
  tubes :: "TubeData list"
  initialTubes :: "TubeData list"
  selectedTubeId :: "int option"
  moves :: int
  maxMoves :: int
  level :: int
  isCompleted :: bool
  isFailed :: bool
  history :: "TubeData list list"
  timeLeft :: int
  totalTime :: int

text \<open>
  A property access on \<^verbatim>\<open>undefined\<close> throws; it is the only exception the modelled
  code can raise.
\<close>

datatype error = TypeError

subsection \<open>Difficulty model (\<^verbatim>\<open>constants.ts\<close>)\<close>

definition BALL_COLORS :: "string list" where
  "BALL_COLORS =
     [''#ef4444'', ''#3b82f6'', ''#22c55e'', ''#eab308'', ''#a855f7'', ''#06b6d4'',
      ''#f97316'', ''#ec4899'', ''#64748b'', ''#8b5cf6'', ''#14b8a6'', ''#d946ef'']"

definition TUBE_CAPACITY :: nat where
  "TUBE_CAPACITY = 4"

definition TOTAL_LEVELS :: int where
  "TOTAL_LEVELS = 30"

text \<open>The chain of \<^verbatim>\<open>if (levelIndex >= k) numColors = c\<close> assignments: the last one that fires wins.\<close>

definition colorSteps :: "int \<Rightarrow> int" where
  "colorSteps levelIndex =
     (if levelIndex \<ge> 19 then 12
      else if levelIndex \<ge> 16 then 11
      else if levelIndex \<ge> 13 then 10
      else if levelIndex \<ge> 10 then 9
      else if levelIndex \<ge> 7 then 8
      else if levelIndex \<ge> 5 then 7
      else if levelIndex \<ge> 3 then 6
      else if levelIndex \<ge> 1 then 5
      else 4)"

definition getLevelConfig :: "int \<Rightarrow> LevelConfig" where
  "getLevelConfig levelIndex =
     (let numColors = min (colorSteps levelIndex) (int (length BALL_COLORS));
          shuffles = 60 + levelIndex * 6;
          maxMoves = \<lfloor>real_of_int shuffles\<rfloor> + 3;
          timeLimit = 30 + \<lceil>real_of_int maxMoves * 1.5\<rceil>
      in \<lparr>numColors = numColors, numEmpty = 2, shuffles = shuffles,
          maxMoves = maxMoves, timeLimit = timeLimit\<rparr>)"

subsection \<open>Rule engine (\<^verbatim>\<open>utils/gameLogic.ts\<close>)\<close>

definition isValidMove :: "TubeData \<Rightarrow> TubeData \<Rightarrow> bool" where
  "isValidMove sourceTube destTube =
     (if id_tube sourceTube = id_tube destTube then False
      else if length (balls sourceTube) = 0 then False
      else if length (balls destTube) \<ge> capacity destTube then False
      else let sourceBall = last (balls sourceTube) in
        if length (balls destTube) = 0 then True
        else let destBall = last (balls destTube) in
          colorId sourceBall = colorId destBall)"

text \<open>
  The callback of \<^verbatim>\<open>tubes.every\<close> in \<^verbatim>\<open>checkWinCondition\<close>. The index \<open>0\<close> is read
  only from a tube of \<^verbatim>\<open>TUBE_CAPACITY\<close> balls.
\<close>

definition tubeSorted :: "TubeData \<Rightarrow> bool" where
  "tubeSorted tube =
     (if length (balls tube) = 0 then True
      else if length (balls tube) \<noteq> TUBE_CAPACITY then False
      else let firstColor = colorId (balls tube ! 0) in
        list_all (\<lambda>b. colorId b = firstColor) (balls tube))"

definition checkWinCondition :: "TubeData list \<Rightarrow> bool" where
  "checkWinCondition board = list_all tubeSorted board"

text \<open>The words of the specification: one colour across all the balls of a tube.\<close>

definition monochrome :: "Ball list \<Rightarrow> bool" where
  "monochrome bs = (\<forall>a \<in> set bs. \<forall>b \<in> set bs. colorId a = colorId b)"

subsection \<open>Level generator (\<^verbatim>\<open>utils/gameLogic.ts\<close>)\<close>

text \<open>
  \<^verbatim>\<open>generateLevel\<close> draws from two outside sources: \<^verbatim>\<open>Math.random()\<close>, whose
  \<open>i\<close>-th value is \<open>random i\<close> (one draw in each shuffle iteration), and
  \<^verbatim>\<open>uuidv4()\<close>, whose \<open>k\<close>-th value is \<open>uuidv4 k\<close>. The array \<^verbatim>\<open>tubes\<close> is
  mutated in place by the source and passed along here. The fields \<^verbatim>\<open>from\<close> and
  \<^verbatim>\<open>to\<close> of a move are \<open>from_tube\<close> and \<open>to_tube\<close>.
\<close>

record Move =
  from_tube :: nat
  to_tube :: nat

text \<open>Step 1: the solved state, of \<open>totalTubes\<close> tubes.\<close>

definition solvedState :: "(nat \<Rightarrow> string) \<Rightarrow> int \<Rightarrow> nat \<Rightarrow> TubeData list" where
  "solvedState uuidv4 colors totalTubes =
     map (\<lambda>i. \<lparr>id_tube = int i,
               balls = (if int i < colors
                        then map (\<lambda>j. \<lparr>id_ball = uuidv4 (i * TUBE_CAPACITY + j), colorId = int i\<rparr>)
                               [0..<TUBE_CAPACITY]
                        else []),
               capacity = TUBE_CAPACITY\<rparr>) [0..<totalTubes]"

text \<open>Step 2: the two nested \<^verbatim>\<open>for\<close> loops that collect the moves of one iteration.\<close>

definition availableMoves :: "TubeData list \<Rightarrow> nat \<Rightarrow> Move list" where
  "availableMoves board totalTubes =
     [\<lparr>from_tube = src, to_tube = dest\<rparr>.
        src \<leftarrow> [0..<totalTubes], length (balls (board ! src)) \<noteq> 0,
        dest \<leftarrow> [0..<totalTubes], src \<noteq> dest,
        length (balls (board ! dest)) < capacity (board ! dest)]"

definition movePool :: "TubeData list \<Rightarrow> nat \<Rightarrow> int \<Rightarrow> Move list" where
  "movePool board totalTubes previousSource =
     (let available = availableMoves board totalTubes;
          usefulMoves = filter (\<lambda>m. int (to_tube m) \<noteq> previousSource) available
      in if length usefulMoves > 0 then usefulMoves else available)"

text \<open>
  \<^verbatim>\<open>tubes[from].balls.pop()\<close> followed by \<^verbatim>\<open>tubes[to].balls.push(ball)\<close>. Every
  caller passes indices within the board and a source tube that holds a ball
  (\<open>availableMoves_sound\<close>, \<open>breakSolved\<close>).
\<close>

definition performMove :: "TubeData list \<Rightarrow> Move \<Rightarrow> TubeData list" where
  "performMove board m =
     (let ball = last (balls (board ! from_tube m));
          popped = board[from_tube m :=
                     (board ! from_tube m)\<lparr>balls := butlast (balls (board ! from_tube m))\<rparr>]
      in popped[to_tube m :=
           (popped ! to_tube m)\<lparr>balls := balls (popped ! to_tube m) @ [ball]\<rparr>])"

text \<open>
  The shuffle loop, from iteration \<open>i\<close> on. An index outside the pool would read
  \<^verbatim>\<open>undefined\<close>, and \<^verbatim>\<open>randomMove.from\<close> would throw.
\<close>

function shuffleLoop ::
  "(nat \<Rightarrow> real) \<Rightarrow> int \<Rightarrow> nat \<Rightarrow> nat \<Rightarrow> TubeData list \<Rightarrow> int \<Rightarrow> error + TubeData list" where
  "shuffleLoop random count totalTubes i board previousSource =
     (if int i < count then
        (let pool = movePool board totalTubes previousSource in
         if length pool > 0 then
           (let k = \<lfloor>random i * real (length pool)\<rfloor> in
            if 0 \<le> k \<and> k < int (length pool) then
              (let randomMove = pool ! nat k in
               shuffleLoop random count totalTubes (i + 1)
                 (performMove board randomMove) (int (from_tube randomMove)))
            else Inl TypeError)
         else Inr board)
      else Inr board)"
  by pat_completeness auto
termination
  by (relation "measure (\<lambda>(random, count, totalTubes, i, board, previousSource). nat (count - int i))")
     auto

text \<open>Step 3: \<^verbatim>\<open>tubes.find\<close> returns the first tube that fits; it is updated where it stands.\<close>

primrec firstIndex :: "('a \<Rightarrow> bool) \<Rightarrow> 'a list \<Rightarrow> nat option" where
  "firstIndex P [] = None"
| "firstIndex P (x # xs) = (if P x then Some 0 else map_option Suc (firstIndex P xs))"

definition solvedTube :: "TubeData \<Rightarrow> bool" where
  "solvedTube tube =
     (length (balls tube) = TUBE_CAPACITY
      \<and> (let firstColor = colorId (balls tube ! 0) in
           list_all (\<lambda>b. colorId b = firstColor) (balls tube)))"

text \<open>The body of the inner \<^verbatim>\<open>for\<close> loop, on the pair of \<^verbatim>\<open>tubes\<close> and \<^verbatim>\<open>hasSolvedTube\<close>.\<close>

definition breakSolved :: "nat \<Rightarrow> TubeData list \<times> bool \<Rightarrow> TubeData list \<times> bool" where
  "breakSolved i state =
     (if solvedTube (fst state ! i) then
        (case firstIndex (\<lambda>t. id_tube t \<noteq> int i \<and> length (balls t) < capacity t) (fst state) of
           Some validDest \<Rightarrow>
             (performMove (fst state) \<lparr>from_tube = i, to_tube = validDest\<rparr>, True)
         | None \<Rightarrow> (fst state, True))
      else state)"

function validateLoop :: "nat \<Rightarrow> TubeData list \<Rightarrow> bool \<Rightarrow> nat \<Rightarrow> TubeData list" where
  "validateLoop totalTubes board hasSolvedTube attempts =
     (if hasSolvedTube \<and> attempts < 100 then
        validateLoop totalTubes
          (fst (fold breakSolved [0..<totalTubes] (board, False)))
          (snd (fold breakSolved [0..<totalTubes] (board, False)))
          (attempts + 1)
      else board)"
  by pat_completeness auto
termination
  by (relation "measure (\<lambda>(totalTubes, board, hasSolvedTube, attempts). 100 - attempts)") auto

definition generateLevel :: "(nat \<Rightarrow> real) \<Rightarrow> (nat \<Rightarrow> string) \<Rightarrow> LevelConfig \<Rightarrow> error + TubeData list" where
  "generateLevel random uuidv4 config =
     (let totalTubes = nat (numColors config + numEmpty config) in
      case shuffleLoop random (shuffles config) totalTubes 0
             (solvedState uuidv4 (numColors config) totalTubes) (- 1) of
        Inl e \<Rightarrow> Inl e
      | Inr shuffled \<Rightarrow> Inr (validateLoop totalTubes shuffled True 0))"

text \<open>The number of balls of one colour on a board.\<close>

definition ballsOfColor :: "ColorId \<Rightarrow> TubeData list \<Rightarrow> nat" where
  "ballsOfColor c board = length (filter (\<lambda>b. colorId b = c) (concat (map balls board)))"

subsection \<open>Session handlers (the \<^verbatim>\<open>App\<close> component)\<close>

text \<open>
  The component keeps \<^verbatim>\<open>gameState: GameState | null\<close>; a handler maps the state it
  finds to the state it sets. Events are handled one at a time, so the state that the
  guard of \<^verbatim>\<open>handleTubeClick\<close> reads is the state its updater receives.
  \<^verbatim>\<open>tubes.find\<close> returns \<^verbatim>\<open>undefined\<close> when no tube
  has the id, and \<^verbatim>\<open>isValidMove\<close> then throws on reading \<^verbatim>\<open>.id\<close>. The confetti
  and the unlock frontier of a win are kept outside \<^verbatim>\<open>GameState\<close> and are not part
  of the session value.
\<close>

definition findTube :: "TubeData list \<Rightarrow> int \<Rightarrow> TubeData option" where
  "findTube board i = find (\<lambda>t. id_tube t = i) board"

text \<open>The \<^verbatim>\<open>tubes.map\<close> of a valid move: \<^verbatim>\<open>slice(0, -1)\<close> drops the last ball.\<close>

definition moveBall :: "TubeData list \<Rightarrow> TubeData \<Rightarrow> TubeData \<Rightarrow> TubeData list" where
  "moveBall board sourceTube destTube =
     (let ballToMove = last (balls sourceTube) in
      map (\<lambda>t. if id_tube t = id_tube sourceTube then t\<lparr>balls := butlast (balls t)\<rparr>
               else if id_tube t = id_tube destTube then t\<lparr>balls := balls t @ [ballToMove]\<rparr>
               else t) board)"

text \<open>The function that \<^verbatim>\<open>handleTubeClick\<close> passes to \<^verbatim>\<open>setGameState\<close>.\<close>

definition tubeClickUpdate :: "GameState \<Rightarrow> int \<Rightarrow> error + GameState" where
  "tubeClickUpdate prev i =
     (case selectedTubeId prev of
        None \<Rightarrow>
          (case findTube (tubes prev) i of
             None \<Rightarrow> Inr prev
           | Some tube \<Rightarrow>
               if length (balls tube) = 0 then Inr prev
               else Inr (prev\<lparr>selectedTubeId := Some i\<rparr>))
      | Some sel \<Rightarrow>
          if sel = i then Inr (prev\<lparr>selectedTubeId := None\<rparr>)
          else
            (case findTube (tubes prev) sel of
               None \<Rightarrow> Inl TypeError
             | Some sourceTube \<Rightarrow>
                 (case findTube (tubes prev) i of
                    None \<Rightarrow> Inl TypeError
                  | Some destTube \<Rightarrow>
                      if isValidMove sourceTube destTube then
                        let newTubes = moveBall (tubes prev) sourceTube destTube;
                            newMoveCount = moves prev + 1;
                            isWin = checkWinCondition newTubes;
                            isFail = (\<not> isWin \<and> newMoveCount \<ge> maxMoves prev)
                        in Inr (prev\<lparr>tubes := newTubes, selectedTubeId := None,
                                  moves := newMoveCount, isCompleted := isWin,
                                  isFailed := isFail, history := history prev @ [tubes prev]\<rparr>)
                      else if length (balls destTube) > 0 then
                        Inr (prev\<lparr>selectedTubeId := Some i\<rparr>)
                      else Inr (prev\<lparr>selectedTubeId := None\<rparr>))))"

definition handleTubeClick :: "GameState option \<Rightarrow> int \<Rightarrow> error + GameState option" where
  "handleTubeClick gameState i =
     (case gameState of
        None \<Rightarrow> Inr None
      | Some st \<Rightarrow>
          if isCompleted st \<or> isFailed st then Inr (Some st)
          else (case tubeClickUpdate st i of
                  Inl e \<Rightarrow> Inl e
                | Inr st' \<Rightarrow> Inr (Some st')))"

definition handleUndo :: "GameState option \<Rightarrow> GameState option" where
  "handleUndo prev =
     (case prev of
        None \<Rightarrow> None
      | Some st \<Rightarrow>
          if length (history st) = 0 \<or> isFailed st \<or> isCompleted st then Some st
          else
            let previousTubes = last (history st);
                newHistory = butlast (history st)
            in Some (st\<lparr>tubes := previousTubes, selectedTubeId := None, moves := moves st,
                       history := newHistory, isCompleted := False, isFailed := False,
                       timeLeft := timeLeft st\<rparr>))"

text \<open>
  \<^verbatim>\<open>JSON.parse(JSON.stringify(tubes))\<close>: every tube and every ball is built anew from
  its fields.
\<close>

definition deepClone :: "TubeData list \<Rightarrow> TubeData list" where
  "deepClone board =
     map (\<lambda>t. \<lparr>id_tube = id_tube t,
               balls = map (\<lambda>b. \<lparr>id_ball = id_ball b, colorId = colorId b\<rparr>) (balls t),
               capacity = capacity t\<rparr>) board"

text \<open>
  \<^verbatim>\<open>initialTubes\<close> has the type \<^verbatim>\<open>TubeData[]\<close>, and an array is truthy, so
  \<^verbatim>\<open>handleReset\<close> always takes the clone and never its \<^verbatim>\<open>generateLevel\<close> fallback.
\<close>

definition handleReset :: "GameState option \<Rightarrow> GameState option" where
  "handleReset gameState =
     (case gameState of
        None \<Rightarrow> None
      | Some st \<Rightarrow>
          let config = getLevelConfig (level st);
              resetTubes = deepClone (initialTubes st)
          in Some (st\<lparr>tubes := resetTubes, initialTubes := initialTubes st,
                     selectedTubeId := None, moves := 0,
                     maxMoves := LevelConfig.maxMoves config,
                     isCompleted := False, isFailed := False, history := [],
                     timeLeft := timeLimit config, totalTime := timeLimit config\<rparr>))"

definition initLevel :: "(nat \<Rightarrow> real) \<Rightarrow> (nat \<Rightarrow> string) \<Rightarrow> int \<Rightarrow> error + GameState" where
  "initLevel random uuidv4 levelIndex =
     (let config = getLevelConfig levelIndex in
      case generateLevel random uuidv4 config of
        Inl e \<Rightarrow> Inl e
      | Inr newTubes \<Rightarrow>
          Inr \<lparr>tubes = newTubes, initialTubes = deepClone newTubes, selectedTubeId = None,
               moves = 0, maxMoves = LevelConfig.maxMoves config, level = levelIndex,
               isCompleted = False, isFailed = False, history = [],
               timeLeft = timeLimit config, totalTime = timeLimit config\<rparr>)"

text \<open>
  The sessions that a player can reach: a level is started, and then tubes on the screen
  are clicked (the \<^verbatim>\<open>Tube\<close> component passes the id of a tube of the current board),
  moves are undone and the level is reset.
\<close>

inductive reachable :: "GameState \<Rightarrow> bool" where
  start: "initLevel random uuidv4 levelIndex = Inr st \<Longrightarrow> reachable st"
| click: "reachable st \<Longrightarrow> i \<in> set (map id_tube (tubes st)) \<Longrightarrow>
          handleTubeClick (Some st) i = Inr (Some st') \<Longrightarrow> reachable st'"
| undo: "reachable st \<Longrightarrow> handleUndo (Some st) = Some st' \<Longrightarrow> reachable st'"
| reset: "reachable st \<Longrightarrow> handleReset (Some st) = Some st' \<Longrightarrow> reachable st'"

subsection \<open>Invariants and examples used in the proofs\<close>

text \<open>The number of balls with a property on a board, tube by tube.\<close>

definition countBalls :: "(Ball \<Rightarrow> bool) \<Rightarrow> TubeData list \<Rightarrow> nat" where
  "countBalls P board = (\<Sum>k<length board. length (filter P (balls (board ! k))))"

text \<open>
  What every board of the generator satisfies: the tube at index \<open>k\<close> has id \<open>k\<close>,
  capacity \<^verbatim>\<open>TUBE_CAPACITY\<close> and no more balls than that, and each of the colours
  below \<open>colors\<close> is on \<^verbatim>\<open>TUBE_CAPACITY\<close> balls.
\<close>

definition boardInv :: "nat \<Rightarrow> TubeData list \<Rightarrow> bool" where
  "boardInv n board \<longleftrightarrow>
     length board = n
     \<and> (\<forall>k<n. id_tube (board ! k) = int k \<and> capacity (board ! k) = TUBE_CAPACITY
            \<and> length (balls (board ! k)) \<le> TUBE_CAPACITY)"

definition colorInv :: "int \<Rightarrow> TubeData list \<Rightarrow> bool" where
  "colorInv colors board \<longleftrightarrow>
     (\<forall>c. countBalls (\<lambda>b. colorId b = c) board
            = (if 0 \<le> c \<and> c < colors then TUBE_CAPACITY else 0))
     \<and> countBalls (\<lambda>b. True) board = TUBE_CAPACITY * nat colors"

text \<open>
  The selection of a session is in order when it is empty or names a tube of the board
  that holds a ball.
\<close>

definition selectionOk :: "GameState \<Rightarrow> bool" where
  "selectionOk st \<longleftrightarrow>
     (case selectedTubeId st of
        None \<Rightarrow> True
      | Some s \<Rightarrow> (case findTube (tubes st) s of None \<Rightarrow> False | Some src \<Rightarrow> balls src \<noteq> []))"

text \<open>
  The words of the specification for the pool of a shuffle iteration: every legal move
  but the exact reverse of the move before, unless that leaves nothing.
\<close>

definition reverseMove :: "Move \<Rightarrow> Move" where
  "reverseMove m = \<lparr>from_tube = to_tube m, to_tube = from_tube m\<rparr>"

definition claimedMovePool :: "TubeData list \<Rightarrow> nat \<Rightarrow> Move \<Rightarrow> Move list" where
  "claimedMovePool board totalTubes previousMove =
     (let available = availableMoves board totalTubes;
          nonReverse = filter (\<lambda>m. m \<noteq> reverseMove previousMove) available
      in if nonReverse \<noteq> [] then nonReverse else available)"

text \<open>Boards and sessions for the examples: tubes of capacity 4, given by their colours.\<close>

definition exampleBall :: "ColorId \<Rightarrow> Ball" where
  "exampleBall c = \<lparr>id_ball = ''ball'', colorId = c\<rparr>"

definition exampleTube :: "int \<Rightarrow> ColorId list \<Rightarrow> TubeData" where
  "exampleTube i cs = \<lparr>id_tube = i, balls = map exampleBall cs, capacity = 4\<rparr>"

definition exampleState :: "TubeData list \<Rightarrow> int option \<Rightarrow> int \<Rightarrow> GameState" where
  "exampleState board sel n =
     \<lparr>tubes = board,
      initialTubes = [exampleTube 0 [0, 0, 0, 0], exampleTube 1 [1, 1, 1, 1],
                      exampleTube 2 [], exampleTube 3 []],
      selectedTubeId = sel, moves = n, maxMoves = 63, level = 0,
      isCompleted = False, isFailed = False, history = [],
      timeLeft = 100, totalTime = 125\<rparr>"

lemmas example_defs = exampleBall_def exampleTube_def exampleState_def

declare shuffleLoop.simps [simp del] validateLoop.simps [simp del]

subsection \<open>Facts about the rule engine\<close>

lemma all_first_monochrome:
  "bs \<noteq> [] \<Longrightarrow> list_all (\<lambda>b. colorId b = colorId (bs ! 0)) bs = monochrome bs"
proof -
  assume ne: "bs \<noteq> []"
  then have "bs ! 0 \<in> set bs" by simp
  then show ?thesis
    unfolding monochrome_def list_all_iff by metis
qed

lemma tubeSorted_iff:
  "tubeSorted t \<longleftrightarrow>
     balls t = [] \<or> (length (balls t) = TUBE_CAPACITY \<and> monochrome (balls t))"
proof (cases "balls t = []")
  case True
  then show ?thesis by (simp add: tubeSorted_def)
next
  case False
  then show ?thesis
    using all_first_monochrome [OF False] by (simp add: tubeSorted_def)
qed

text \<open>
  Claim C2. \<^verbatim>\<open>isValidMove\<close> is false when both tubes carry the same id, when the
  source is empty, or when the destination is at capacity; failing those it is true for
  an empty destination, and otherwise true exactly when the top balls have the same colour.
\<close>

theorem isValidMove_spec:
  "\<not> isValidMove s s
   \<and> (id_tube s = id_tube d \<longrightarrow> \<not> isValidMove s d)
   \<and> (balls s = [] \<longrightarrow> \<not> isValidMove s d)
   \<and> (capacity d \<le> length (balls d) \<longrightarrow> \<not> isValidMove s d)
   \<and> (id_tube s \<noteq> id_tube d \<and> balls s \<noteq> [] \<and> length (balls d) < capacity d \<longrightarrow>
        (balls d = [] \<longrightarrow> isValidMove s d)
      \<and> (balls d \<noteq> [] \<longrightarrow>
           (isValidMove s d \<longleftrightarrow> colorId (last (balls s)) = colorId (last (balls d)))))"
  by (auto simp: isValidMove_def Let_def)

text \<open>
  An instance of C2: a move onto a ball of the same colour is valid, a move onto a ball of
  another colour is not.
\<close>

theorem isValidMove_spec_witness:
  "id_tube (exampleTube 0 [0, 1]) \<noteq> id_tube (exampleTube 1 [1])
   \<and> balls (exampleTube 0 [0, 1]) \<noteq> []
   \<and> length (balls (exampleTube 1 [1])) < capacity (exampleTube 1 [1])
   \<and> balls (exampleTube 1 [1]) \<noteq> []
   \<and> isValidMove (exampleTube 0 [0, 1]) (exampleTube 1 [1])
   \<and> id_tube (exampleTube 2 [0]) \<noteq> id_tube (exampleTube 1 [1])
   \<and> balls (exampleTube 2 [0]) \<noteq> []
   \<and> \<not> isValidMove (exampleTube 2 [0]) (exampleTube 1 [1])
   \<and> \<not> isValidMove (exampleTube 1 [1]) (exampleTube 1 [1])"
proof -
  have h: "id_tube (exampleTube 0 [0, 1]) \<noteq> id_tube (exampleTube 1 [1])"
    "balls (exampleTube 0 [0, 1]) \<noteq> []"
    "length (balls (exampleTube 1 [1])) < capacity (exampleTube 1 [1])"
    "balls (exampleTube 1 [1]) \<noteq> []"
    "id_tube (exampleTube 2 [0]) \<noteq> id_tube (exampleTube 1 [1])"
    "balls (exampleTube 2 [0]) \<noteq> []"
    by (simp_all add: example_defs)
  have c: "colorId (last (balls (exampleTube 0 [0, 1]))) = colorId (last (balls (exampleTube 1 [1])))"
    "colorId (last (balls (exampleTube 2 [0]))) \<noteq> colorId (last (balls (exampleTube 1 [1])))"
    by (simp_all add: example_defs)
  have "isValidMove (exampleTube 0 [0, 1]) (exampleTube 1 [1])"
    using isValidMove_spec [of "exampleTube 0 [0, 1]" "exampleTube 1 [1]"] h c(1) by blast
  moreover have "\<not> isValidMove (exampleTube 2 [0]) (exampleTube 1 [1])"
    using isValidMove_spec [of "exampleTube 2 [0]" "exampleTube 1 [1]"] h c(2) by blast
  moreover have "\<not> isValidMove (exampleTube 1 [1]) (exampleTube 1 [1])"
    using isValidMove_spec [of "exampleTube 1 [1]"] by blast
  ultimately show ?thesis using h by blast
qed

text \<open>
  Claim C3, as the specification words it, fails: the test is against the constant
  \<^verbatim>\<open>TUBE_CAPACITY\<close>, not against the capacity of the tube. A tube of capacity 3
  that holds three balls of one colour is full and monochrome, and the board is not won.
\<close>

theorem checkWinCondition_capacity_counterexample:
  "\<not> (checkWinCondition
        [\<lparr>id_tube = 0,
          balls = [\<lparr>id_ball = ''a'', colorId = 0\<rparr>, \<lparr>id_ball = ''b'', colorId = 0\<rparr>,
                   \<lparr>id_ball = ''c'', colorId = 0\<rparr>],
          capacity = 3\<rparr>]
      \<longleftrightarrow>
      (\<forall>t \<in> set [\<lparr>id_tube = 0,
          balls = [\<lparr>id_ball = ''a'', colorId = 0\<rparr>, \<lparr>id_ball = ''b'', colorId = 0\<rparr>,
                   \<lparr>id_ball = ''c'', colorId = 0\<rparr>],
          capacity = 3\<rparr>].
         balls t = [] \<or> (length (balls t) = capacity t \<and> monochrome (balls t))))"
  by (simp add: checkWinCondition_def tubeSorted_def TUBE_CAPACITY_def monochrome_def)

text \<open>
  Claim C3, amended. \<^verbatim>\<open>checkWinCondition\<close> is true exactly when every tube is empty
  or holds \<^verbatim>\<open>TUBE_CAPACITY\<close> = 4 balls of one colour; on a board whose tubes all have
  capacity 4 that is: empty, or full to capacity and monochrome.
\<close>

theorem checkWinCondition_spec:
  "(checkWinCondition board \<longleftrightarrow>
      (\<forall>t \<in> set board. balls t = [] \<or> (length (balls t) = 4 \<and> monochrome (balls t))))
   \<and> ((\<forall>t \<in> set board. capacity t = TUBE_CAPACITY) \<longrightarrow>
      (checkWinCondition board \<longleftrightarrow>
        (\<forall>t \<in> set board.
           balls t = [] \<or> (length (balls t) = capacity t \<and> monochrome (balls t)))))"
  by (simp add: checkWinCondition_def list_all_iff tubeSorted_iff TUBE_CAPACITY_def)

text \<open>An instance of C3: an empty tube and a tube of four balls of one colour.\<close>

theorem checkWinCondition_spec_witness:
  "list_all (\<lambda>t. capacity t = TUBE_CAPACITY)
     [\<lparr>id_tube = 0, balls = [], capacity = 4\<rparr>,
      \<lparr>id_tube = 1,
        balls = [\<lparr>id_ball = ''a'', colorId = 2\<rparr>, \<lparr>id_ball = ''b'', colorId = 2\<rparr>,
                 \<lparr>id_ball = ''c'', colorId = 2\<rparr>, \<lparr>id_ball = ''d'', colorId = 2\<rparr>],
        capacity = 4\<rparr>]
   \<and> checkWinCondition
     [\<lparr>id_tube = 0, balls = [], capacity = 4\<rparr>,
      \<lparr>id_tube = 1,
        balls = [\<lparr>id_ball = ''a'', colorId = 2\<rparr>, \<lparr>id_ball = ''b'', colorId = 2\<rparr>,
                 \<lparr>id_ball = ''c'', colorId = 2\<rparr>, \<lparr>id_ball = ''d'', colorId = 2\<rparr>],
        capacity = 4\<rparr>]"
  by (simp add: checkWinCondition_spec TUBE_CAPACITY_def monochrome_def)

subsection \<open>Facts about the difficulty model\<close>

lemma floor_times_six: "\<lfloor>real_of_int l * 6\<rfloor> = l * 6"
proof -
  have "real_of_int l * 6 = real_of_int (l * 6)" by simp
  then show ?thesis by (simp only: floor_of_int)
qed

text \<open>
  Claim C9. For a level index from 0 on, \<^verbatim>\<open>getLevelConfig\<close> gives two empty tubes,
  \<open>60 + 6 * levelIndex\<close> shuffles, three more moves than shuffles, a time limit of
  \<open>30 + \<lceil>1.5 * maxMoves\<rceil>\<close>, and a number of colours that starts at 4, never
  decreases with the level and never exceeds the palette of 12; level 0 gives
  4 colours, 2 empty tubes, 60 shuffles, 63 moves, 125 seconds.
\<close>

theorem getLevelConfig_spec:
  "0 \<le> l \<longrightarrow>
     numEmpty (getLevelConfig l) = 2
   \<and> shuffles (getLevelConfig l) = 60 + 6 * l
   \<and> LevelConfig.maxMoves (getLevelConfig l) = \<lfloor>real_of_int (shuffles (getLevelConfig l))\<rfloor> + 3
   \<and> LevelConfig.maxMoves (getLevelConfig l) = shuffles (getLevelConfig l) + 3
   \<and> timeLimit (getLevelConfig l)
       = 30 + \<lceil>real_of_int (LevelConfig.maxMoves (getLevelConfig l)) * 1.5\<rceil>
   \<and> 4 \<le> numColors (getLevelConfig l)
   \<and> numColors (getLevelConfig l) \<le> int (length BALL_COLORS)
   \<and> length BALL_COLORS = 12
   \<and> (\<forall>l'. l \<le> l' \<longrightarrow> numColors (getLevelConfig l) \<le> numColors (getLevelConfig l'))
   \<and> numColors (getLevelConfig 0) = 4
   \<and> getLevelConfig 0
       = \<lparr>numColors = 4, numEmpty = 2, shuffles = 60, maxMoves = 63, timeLimit = 125\<rparr>"
  by (simp add: getLevelConfig_def Let_def colorSteps_def BALL_COLORS_def floor_times_six)

text \<open>An instance of C9: level 7, and the colours of levels 7 and 12.\<close>

theorem getLevelConfig_spec_witness:
  "(0::int) \<le> 7
   \<and> getLevelConfig 7
       = \<lparr>numColors = 8, numEmpty = 2, shuffles = 102, maxMoves = 105, timeLimit = 188\<rparr>
   \<and> (7::int) \<le> 12 \<and> numColors (getLevelConfig 7) \<le> numColors (getLevelConfig 12)"
  using getLevelConfig_spec [of 7]
  by (simp add: getLevelConfig_def Let_def colorSteps_def BALL_COLORS_def)

subsection \<open>Facts about the session handlers\<close>

lemma findTube_Some:
  "findTube board i = Some t \<Longrightarrow> t \<in> set board \<and> id_tube t = i"
  unfolding findTube_def by (induction board) (auto split: if_splits)

lemma findTube_index:
  "findTube board i = Some t \<Longrightarrow> \<exists>k < length board. board ! k = t"
  using findTube_Some [of board i t] by (auto simp: in_set_conv_nth)

lemma deepClone_eq: "deepClone board = board"
  unfolding deepClone_def by (simp add: map_idI)

lemma length_moveBall: "length (moveBall board s d) = length board"
  by (simp add: moveBall_def)

lemma moveBall_nth:
  "k < length board \<Longrightarrow>
   moveBall board s d ! k =
     (if id_tube (board ! k) = id_tube s then (board ! k)\<lparr>balls := butlast (balls (board ! k))\<rparr>
      else if id_tube (board ! k) = id_tube d
        then (board ! k)\<lparr>balls := balls (board ! k) @ [last (balls s)]\<rparr>
      else board ! k)"
  by (simp add: moveBall_def)

lemma distinct_ids_index:
  "distinct (map id_tube board) \<Longrightarrow> i < length board \<Longrightarrow> k < length board \<Longrightarrow>
   id_tube (board ! k) = id_tube (board ! i) \<longleftrightarrow> k = i"
  using nth_eq_iff_index_eq [of "map id_tube board" k i] by auto

lemma moveBall_update:
  assumes d: "distinct (map id_tube board)" and i: "i < length board" and j: "j < length board"
    and ij: "id_tube (board ! i) \<noteq> id_tube (board ! j)"
  shows "moveBall board (board ! i) (board ! j) =
     board[i := (board ! i)\<lparr>balls := butlast (balls (board ! i))\<rparr>,
           j := (board ! j)\<lparr>balls := balls (board ! j) @ [last (balls (board ! i))]\<rparr>]"
proof (rule nth_equalityI)
  show "length (moveBall board (board ! i) (board ! j)) = length (board[i := (board ! i)\<lparr>balls := butlast (balls (board ! i))\<rparr>,
           j := (board ! j)\<lparr>balls := balls (board ! j) @ [last (balls (board ! i))]\<rparr>])"
    by (simp add: length_moveBall)
next
  fix k assume "k < length (moveBall board (board ! i) (board ! j))"
  then have k: "k < length board" by (simp add: length_moveBall)
  from ij have "i \<noteq> j" by auto
  then show "moveBall board (board ! i) (board ! j) ! k = board[i := (board ! i)\<lparr>balls := butlast (balls (board ! i))\<rparr>,
           j := (board ! j)\<lparr>balls := balls (board ! j) @ [last (balls (board ! i))]\<rparr>] ! k"
    using k i j ij distinct_ids_index [OF d i k] distinct_ids_index [OF d j k]
    by (auto simp: moveBall_nth nth_list_update)
qed

lemma tubeClickUpdate_valid:
  assumes "selectedTubeId st = Some s" "s \<noteq> d"
    "findTube (tubes st) s = Some src" "findTube (tubes st) d = Some dst"
    "isValidMove src dst"
  shows "tubeClickUpdate st d =
     Inr (st\<lparr>tubes := moveBall (tubes st) src dst, selectedTubeId := None,
            moves := moves st + 1,
            isCompleted := checkWinCondition (moveBall (tubes st) src dst),
            isFailed := (\<not> checkWinCondition (moveBall (tubes st) src dst)
                          \<and> maxMoves st \<le> moves st + 1),
            history := history st @ [tubes st]\<rparr>)"
  using assms by (simp add: tubeClickUpdate_def Let_def)

lemma tubeClickUpdate_invalid:
  assumes "selectedTubeId st = Some s" "s \<noteq> d"
    "findTube (tubes st) s = Some src" "findTube (tubes st) d = Some dst"
    "\<not> isValidMove src dst"
  shows "tubeClickUpdate st d =
     Inr (st\<lparr>selectedTubeId := (if balls dst \<noteq> [] then Some d else None)\<rparr>)"
  using assms by (simp add: tubeClickUpdate_def Let_def)

text \<open>
  Claim C1. While the session is playing and a tube other than the selected one is clicked,
  a valid move takes the top ball of the source tube to the top of the destination tube
  (by index, when the ids of the board are distinct), appends the board before the move to
  the history, adds one to \<open>moves\<close> and clears the selection. The session is then
  completed if the new board is won, failed if it is not won and the new \<open>moves\<close> has
  reached \<open>maxMoves\<close>, and playing otherwise; never completed and failed at once. A
  move that does not win, made at \<open>moves = maxMoves - 1\<close>, fails the session.
\<close>

theorem handleTubeClick_valid_move:
  assumes playing: "\<not> isCompleted st" "\<not> isFailed st"
    and sel: "selectedTubeId st = Some s" "s \<noteq> d"
    and src: "findTube (tubes st) s = Some src"
    and dst: "findTube (tubes st) d = Some dst"
    and valid: "isValidMove src dst"
  shows "\<exists>st'. handleTubeClick (Some st) d = Inr (Some st')
     \<and> length (tubes st') = length (tubes st)
     \<and> (\<forall>k < length (tubes st). tubes st' ! k =
          (if id_tube (tubes st ! k) = s
             then (tubes st ! k)\<lparr>balls := butlast (balls (tubes st ! k))\<rparr>
           else if id_tube (tubes st ! k) = d
             then (tubes st ! k)\<lparr>balls := balls (tubes st ! k) @ [last (balls src)]\<rparr>
           else tubes st ! k))
     \<and> (distinct (map id_tube (tubes st)) \<longrightarrow>
          (\<exists>i j. i < length (tubes st) \<and> j < length (tubes st) \<and> i \<noteq> j
             \<and> tubes st ! i = src \<and> tubes st ! j = dst
             \<and> tubes st' = (tubes st)
                  [i := src\<lparr>balls := butlast (balls src)\<rparr>,
                   j := dst\<lparr>balls := balls dst @ [last (balls src)]\<rparr>]))
     \<and> history st' = history st @ [tubes st]
     \<and> moves st' = moves st + 1
     \<and> selectedTubeId st' = None
     \<and> isCompleted st' = checkWinCondition (tubes st')
     \<and> isFailed st' = (\<not> checkWinCondition (tubes st') \<and> maxMoves st \<le> moves st')
     \<and> \<not> (isCompleted st' \<and> isFailed st')
     \<and> (\<not> checkWinCondition (tubes st') \<and> moves st = maxMoves st - 1
          \<longrightarrow> isFailed st' \<and> \<not> isCompleted st')
     \<and> initialTubes st' = initialTubes st \<and> maxMoves st' = maxMoves st
     \<and> level st' = level st \<and> timeLeft st' = timeLeft st \<and> totalTime st' = totalTime st"
proof -
  let ?nb = "moveBall (tubes st) src dst"
  let ?st' = "st\<lparr>tubes := ?nb, selectedTubeId := None,
            moves := moves st + 1,
            isCompleted := checkWinCondition ?nb,
            isFailed := (\<not> checkWinCondition ?nb \<and> maxMoves st \<le> moves st + 1),
            history := history st @ [tubes st]\<rparr>"
  have ids: "id_tube src = s" "id_tube dst = d"
    using findTube_Some [OF src] findTube_Some [OF dst] by simp_all
  have run: "handleTubeClick (Some st) d = Inr (Some ?st')"
    using playing tubeClickUpdate_valid [OF sel src dst valid]
    by (simp add: handleTubeClick_def)
  have nth: "\<forall>k < length (tubes st). tubes ?st' ! k =
          (if id_tube (tubes st ! k) = s
             then (tubes st ! k)\<lparr>balls := butlast (balls (tubes st ! k))\<rparr>
           else if id_tube (tubes st ! k) = d
             then (tubes st ! k)\<lparr>balls := balls (tubes st ! k) @ [last (balls src)]\<rparr>
           else tubes st ! k)"
    using ids by (simp add: moveBall_nth)
  have upd: "distinct (map id_tube (tubes st)) \<longrightarrow>
          (\<exists>i j. i < length (tubes st) \<and> j < length (tubes st) \<and> i \<noteq> j
             \<and> tubes st ! i = src \<and> tubes st ! j = dst
             \<and> tubes ?st' = (tubes st)
                  [i := src\<lparr>balls := butlast (balls src)\<rparr>,
                   j := dst\<lparr>balls := balls dst @ [last (balls src)]\<rparr>])"
  proof
    assume dist: "distinct (map id_tube (tubes st))"
    obtain i where i: "i < length (tubes st)" "tubes st ! i = src"
      using findTube_index [OF src] by blast
    obtain j where j: "j < length (tubes st)" "tubes st ! j = dst"
      using findTube_index [OF dst] by blast
    have ne: "id_tube (tubes st ! i) \<noteq> id_tube (tubes st ! j)"
      using i j ids sel(2) by simp
    then have "i \<noteq> j" by auto
    moreover have "tubes ?st' = (tubes st)
                  [i := src\<lparr>balls := butlast (balls src)\<rparr>,
                   j := dst\<lparr>balls := balls dst @ [last (balls src)]\<rparr>]"
      using moveBall_update [OF dist i(1) j(1) ne] i(2) j(2) by simp
    ultimately show "\<exists>i j. i < length (tubes st) \<and> j < length (tubes st) \<and> i \<noteq> j
             \<and> tubes st ! i = src \<and> tubes st ! j = dst
             \<and> tubes ?st' = (tubes st)
                  [i := src\<lparr>balls := butlast (balls src)\<rparr>,
                   j := dst\<lparr>balls := balls dst @ [last (balls src)]\<rparr>]"
      using i j by blast
  qed
  have rest: "length (tubes ?st') = length (tubes st)"
    "history ?st' = history st @ [tubes st]"
    "moves ?st' = moves st + 1"
    "selectedTubeId ?st' = None"
    "isCompleted ?st' = checkWinCondition (tubes ?st')"
    "isFailed ?st' = (\<not> checkWinCondition (tubes ?st') \<and> maxMoves st \<le> moves ?st')"
    "\<not> (isCompleted ?st' \<and> isFailed ?st')"
    "\<not> checkWinCondition (tubes ?st') \<and> moves st = maxMoves st - 1
          \<longrightarrow> isFailed ?st' \<and> \<not> isCompleted ?st'"
    "initialTubes ?st' = initialTubes st" "maxMoves ?st' = maxMoves st"
    "level ?st' = level st" "timeLeft ?st' = timeLeft st" "totalTime ?st' = totalTime st"
    by (simp_all add: length_moveBall)
  show ?thesis
    apply (rule exI [of _ ?st'])
    using run nth upd rest by blast
qed

text \<open>
  The scenario of C1: the solved board of two colours, tube 0 selected, 62 of 63 moves used;
  the click on the empty tube 2 moves a ball and fails the session.
\<close>

theorem handleTubeClick_valid_move_witness:
  "\<not> isCompleted (exampleState [exampleTube 0 [0, 0, 0, 0], exampleTube 1 [1, 1, 1, 1],
          exampleTube 2 [], exampleTube 3 []] (Some 0) 62)
   \<and> \<not> isFailed (exampleState [exampleTube 0 [0, 0, 0, 0], exampleTube 1 [1, 1, 1, 1],
          exampleTube 2 [], exampleTube 3 []] (Some 0) 62)
   \<and> selectedTubeId (exampleState [exampleTube 0 [0, 0, 0, 0], exampleTube 1 [1, 1, 1, 1],
          exampleTube 2 [], exampleTube 3 []] (Some 0) 62) = Some 0
   \<and> (0::int) \<noteq> 2
   \<and> findTube (tubes (exampleState [exampleTube 0 [0, 0, 0, 0], exampleTube 1 [1, 1, 1, 1],
          exampleTube 2 [], exampleTube 3 []] (Some 0) 62)) 0 = Some (exampleTube 0 [0, 0, 0, 0])
   \<and> findTube (tubes (exampleState [exampleTube 0 [0, 0, 0, 0], exampleTube 1 [1, 1, 1, 1],
          exampleTube 2 [], exampleTube 3 []] (Some 0) 62)) 2 = Some (exampleTube 2 [])
   \<and> isValidMove (exampleTube 0 [0, 0, 0, 0]) (exampleTube 2 [])
   \<and> (\<exists>st'. handleTubeClick
          (Some (exampleState [exampleTube 0 [0, 0, 0, 0], exampleTube 1 [1, 1, 1, 1],
             exampleTube 2 [], exampleTube 3 []] (Some 0) 62)) 2 = Inr (Some st')
        \<and> tubes st' = [exampleTube 0 [0, 0, 0], exampleTube 1 [1, 1, 1, 1],
                        exampleTube 2 [0], exampleTube 3 []]
        \<and> history st' = [[exampleTube 0 [0, 0, 0, 0], exampleTube 1 [1, 1, 1, 1],
                           exampleTube 2 [], exampleTube 3 []]]
        \<and> moves st' = 63 \<and> selectedTubeId st' = None
        \<and> isFailed st' \<and> \<not> isCompleted st')"
proof -
  let ?b = "[exampleTube 0 [0, 0, 0, 0], exampleTube 1 [1, 1, 1, 1],
             exampleTube 2 [], exampleTube 3 []]"
  let ?st = "exampleState ?b (Some 0) 62"
  have h: "\<not> isCompleted ?st" "\<not> isFailed ?st" "selectedTubeId ?st = Some 0" "(0::int) \<noteq> 2"
    "findTube (tubes ?st) 0 = Some (exampleTube 0 [0, 0, 0, 0])"
    "findTube (tubes ?st) 2 = Some (exampleTube 2 [])"
    "isValidMove (exampleTube 0 [0, 0, 0, 0]) (exampleTube 2 [])"
    by (simp_all add: example_defs findTube_def isValidMove_def)
  let ?st1 = "?st\<lparr>tubes := [exampleTube 0 [0, 0, 0], exampleTube 1 [1, 1, 1, 1],
                        exampleTube 2 [0], exampleTube 3 []],
                 selectedTubeId := None, moves := 63, isFailed := True, history := [?b]\<rparr>"
  have run: "handleTubeClick (Some ?st) 2 = Inr (Some ?st1)"
    by (simp add: handleTubeClick_def tubeClickUpdate_def findTube_def isValidMove_def
        moveBall_def checkWinCondition_def tubeSorted_def TUBE_CAPACITY_def example_defs)
  obtain st' where st': "handleTubeClick (Some ?st) 2 = Inr (Some st')"
    and rest: "history st' = history ?st @ [tubes ?st]" "moves st' = moves ?st + 1"
      "selectedTubeId st' = None" "\<not> (isCompleted st' \<and> isFailed st')"
    using handleTubeClick_valid_move [OF h] by blast
  have eq: "st' = ?st1" using run st' by simp
  have fields: "tubes st' = [exampleTube 0 [0, 0, 0], exampleTube 1 [1, 1, 1, 1],
                        exampleTube 2 [0], exampleTube 3 []]"
    "history st' = [?b]" "moves st' = 63" "isFailed st'" "\<not> isCompleted st'"
    using rest by (simp_all add: eq exampleState_def)
  show ?thesis
    using h st' fields rest(3) by (intro conjI exI [of _ st']) simp_all
qed

text \<open>
  Claim C7. While the session is playing with a tube selected, a click on another tube for
  which \<^verbatim>\<open>isValidMove\<close> fails changes nothing but the selection: it becomes the
  clicked tube when that tube holds a ball and is cleared when it is empty.
\<close>

theorem handleTubeClick_invalid_move:
  assumes playing: "\<not> isCompleted st" "\<not> isFailed st"
    and sel: "selectedTubeId st = Some s" "s \<noteq> d"
    and src: "findTube (tubes st) s = Some src"
    and dst: "findTube (tubes st) d = Some dst"
    and invalid: "\<not> isValidMove src dst"
  shows "handleTubeClick (Some st) d
     = Inr (Some (st\<lparr>selectedTubeId := (if balls dst \<noteq> [] then Some d else None)\<rparr>))"
  using playing tubeClickUpdate_invalid [OF sel src dst invalid]
  by (simp add: handleTubeClick_def)

text \<open>
  The scenario of C7: after the move from tube 0 to tube 2, tube 0 is selected and the full
  tube 1 is clicked; the board stays and tube 1 is selected.
\<close>

theorem handleTubeClick_invalid_move_witness:
  "\<not> isCompleted (exampleState [exampleTube 0 [0, 0, 0], exampleTube 1 [1, 1, 1, 1],
          exampleTube 2 [0], exampleTube 3 []] (Some 0) 1)
   \<and> \<not> isFailed (exampleState [exampleTube 0 [0, 0, 0], exampleTube 1 [1, 1, 1, 1],
          exampleTube 2 [0], exampleTube 3 []] (Some 0) 1)
   \<and> selectedTubeId (exampleState [exampleTube 0 [0, 0, 0], exampleTube 1 [1, 1, 1, 1],
          exampleTube 2 [0], exampleTube 3 []] (Some 0) 1) = Some 0
   \<and> (0::int) \<noteq> 1
   \<and> findTube (tubes (exampleState [exampleTube 0 [0, 0, 0], exampleTube 1 [1, 1, 1, 1],
          exampleTube 2 [0], exampleTube 3 []] (Some 0) 1)) 0 = Some (exampleTube 0 [0, 0, 0])
   \<and> findTube (tubes (exampleState [exampleTube 0 [0, 0, 0], exampleTube 1 [1, 1, 1, 1],
          exampleTube 2 [0], exampleTube 3 []] (Some 0) 1)) 1 = Some (exampleTube 1 [1, 1, 1, 1])
   \<and> \<not> isValidMove (exampleTube 0 [0, 0, 0]) (exampleTube 1 [1, 1, 1, 1])
   \<and> handleTubeClick
        (Some (exampleState [exampleTube 0 [0, 0, 0], exampleTube 1 [1, 1, 1, 1],
           exampleTube 2 [0], exampleTube 3 []] (Some 0) 1)) 1
      = Inr (Some (exampleState [exampleTube 0 [0, 0, 0], exampleTube 1 [1, 1, 1, 1],
           exampleTube 2 [0], exampleTube 3 []] (Some 1) 1))"
proof -
  let ?b = "[exampleTube 0 [0, 0, 0], exampleTube 1 [1, 1, 1, 1],
          exampleTube 2 [0], exampleTube 3 []]"
  let ?st = "exampleState ?b (Some 0) 1"
  have h: "\<not> isCompleted ?st" "\<not> isFailed ?st" "selectedTubeId ?st = Some 0" "(0::int) \<noteq> 1"
    "findTube (tubes ?st) 0 = Some (exampleTube 0 [0, 0, 0])"
    "findTube (tubes ?st) 1 = Some (exampleTube 1 [1, 1, 1, 1])"
    "\<not> isValidMove (exampleTube 0 [0, 0, 0]) (exampleTube 1 [1, 1, 1, 1])"
    by (simp_all add: example_defs findTube_def isValidMove_def)
  have "handleTubeClick (Some ?st) 1 = Inr (Some (exampleState ?b (Some 1) 1))"
    using handleTubeClick_invalid_move [OF h] by (simp add: example_defs)
  with h show ?thesis by simp
qed

lemma handleUndo_noop:
  "history st = [] \<or> isCompleted st \<or> isFailed st \<Longrightarrow> handleUndo (Some st) = Some st"
  by (auto simp: handleUndo_def)

lemma handleUndo_step:
  "history st \<noteq> [] \<Longrightarrow> \<not> isCompleted st \<Longrightarrow> \<not> isFailed st \<Longrightarrow>
   handleUndo (Some st) =
     Some (st\<lparr>tubes := last (history st), selectedTubeId := None,
              history := butlast (history st)\<rparr>)"
  by (simp add: handleUndo_def Let_def)

lemma handleUndo_moves: "map_option moves (handleUndo g) = map_option moves g"
  by (cases g) (simp_all add: handleUndo_def Let_def)

lemma handleUndo_pow_moves: "map_option moves ((handleUndo ^^ n) g) = map_option moves g"
  by (induction n) (simp_all add: handleUndo_moves)

text \<open>
  Claim C6. While the session is playing and the history is not empty, \<^verbatim>\<open>handleUndo\<close>
  restores the last board of the history, drops it from the history and clears the
  selection, and leaves \<open>moves\<close> as it is. With an empty history or in a completed or
  failed session it does nothing. After a valid move that leaves the session playing, it
  restores the board and the history from before the move and \<open>moves\<close> keeps the value
  after the move. Any number of undos leaves \<open>moves\<close> unchanged.
\<close>

theorem handleUndo_spec:
  "(history st \<noteq> [] \<and> \<not> isCompleted st \<and> \<not> isFailed st \<longrightarrow>
      handleUndo (Some st) =
        Some (st\<lparr>tubes := last (history st), selectedTubeId := None,
                 history := butlast (history st)\<rparr>))
   \<and> (history st = [] \<or> isCompleted st \<or> isFailed st \<longrightarrow> handleUndo (Some st) = Some st)
   \<and> (\<forall>s d src dst st1.
        \<not> isCompleted st \<and> \<not> isFailed st \<and> selectedTubeId st = Some s \<and> s \<noteq> d
        \<and> findTube (tubes st) s = Some src \<and> findTube (tubes st) d = Some dst
        \<and> isValidMove src dst
        \<and> handleTubeClick (Some st) d = Inr (Some st1)
        \<and> \<not> isCompleted st1 \<and> \<not> isFailed st1
        \<longrightarrow> (\<exists>st2. handleUndo (Some st1) = Some st2
              \<and> tubes st2 = tubes st \<and> history st2 = history st
              \<and> selectedTubeId st2 = None
              \<and> moves st2 = moves st1 \<and> moves st2 = moves st + 1))
   \<and> (\<forall>n. map_option moves ((handleUndo ^^ n) (Some st)) = Some (moves st))"
proof (intro conjI allI impI)
  assume "history st \<noteq> [] \<and> \<not> isCompleted st \<and> \<not> isFailed st"
  then show "handleUndo (Some st) =
        Some (st\<lparr>tubes := last (history st), selectedTubeId := None,
                 history := butlast (history st)\<rparr>)"
    by (simp add: handleUndo_step)
next
  assume "history st = [] \<or> isCompleted st \<or> isFailed st"
  then show "handleUndo (Some st) = Some st" by (rule handleUndo_noop)
next
  fix s d src dst st1
  assume a: "\<not> isCompleted st \<and> \<not> isFailed st \<and> selectedTubeId st = Some s \<and> s \<noteq> d
        \<and> findTube (tubes st) s = Some src \<and> findTube (tubes st) d = Some dst
        \<and> isValidMove src dst
        \<and> handleTubeClick (Some st) d = Inr (Some st1)
        \<and> \<not> isCompleted st1 \<and> \<not> isFailed st1"
  then have upd: "tubeClickUpdate st d =
     Inr (st\<lparr>tubes := moveBall (tubes st) src dst, selectedTubeId := None,
            moves := moves st + 1,
            isCompleted := checkWinCondition (moveBall (tubes st) src dst),
            isFailed := (\<not> checkWinCondition (moveBall (tubes st) src dst)
                          \<and> maxMoves st \<le> moves st + 1),
            history := history st @ [tubes st]\<rparr>)"
    using tubeClickUpdate_valid [of st s d src dst] by blast
  from a have click: "handleTubeClick (Some st) d = Inr (Some st1)"
    and pl: "\<not> isCompleted st" "\<not> isFailed st" by simp_all
  from click pl upd have st1: "st1 = st\<lparr>tubes := moveBall (tubes st) src dst, selectedTubeId := None,
            moves := moves st + 1,
            isCompleted := checkWinCondition (moveBall (tubes st) src dst),
            isFailed := (\<not> checkWinCondition (moveBall (tubes st) src dst)
                          \<and> maxMoves st \<le> moves st + 1),
            history := history st @ [tubes st]\<rparr>"
    by (simp add: handleTubeClick_def)
  have h: "history st1 \<noteq> []" "last (history st1) = tubes st"
    "butlast (history st1) = history st" "moves st1 = moves st + 1"
    by (simp_all add: st1)
  from a have p: "\<not> isCompleted st1" "\<not> isFailed st1" by simp_all
  show "\<exists>st2. handleUndo (Some st1) = Some st2
              \<and> tubes st2 = tubes st \<and> history st2 = history st
              \<and> selectedTubeId st2 = None
              \<and> moves st2 = moves st1 \<and> moves st2 = moves st + 1"
    using handleUndo_step [OF h(1) p] h by simp
next
  fix n
  show "map_option moves ((handleUndo ^^ n) (Some st)) = Some (moves st)"
    using handleUndo_pow_moves [of n "Some st"] by simp
qed

text \<open>
  The scenario of C6: one move on the solved board of two colours, then undo (the board is
  back, \<open>moves\<close> stays 1), then undo again (nothing left to undo).
\<close>

theorem handleUndo_spec_witness:
  "\<exists>st1 st2.
      handleTubeClick
        (Some (exampleState [exampleTube 0 [0, 0, 0, 0], exampleTube 1 [1, 1, 1, 1],
           exampleTube 2 [], exampleTube 3 []] (Some 0) 0)) 2 = Inr (Some st1)
    \<and> isValidMove (exampleTube 0 [0, 0, 0, 0]) (exampleTube 2 [])
    \<and> \<not> isCompleted st1 \<and> \<not> isFailed st1
    \<and> tubes st1 \<noteq> [exampleTube 0 [0, 0, 0, 0], exampleTube 1 [1, 1, 1, 1],
                        exampleTube 2 [], exampleTube 3 []]
    \<and> handleUndo (Some st1) = Some st2
    \<and> tubes st2 = [exampleTube 0 [0, 0, 0, 0], exampleTube 1 [1, 1, 1, 1],
                    exampleTube 2 [], exampleTube 3 []]
    \<and> history st2 = [] \<and> moves st1 = 1 \<and> moves st2 = 1
    \<and> handleUndo (Some st2) = Some st2"
proof -
  let ?b = "[exampleTube 0 [0, 0, 0, 0], exampleTube 1 [1, 1, 1, 1],
             exampleTube 2 [], exampleTube 3 []]"
  let ?st = "exampleState ?b (Some 0) 0"
  let ?st1 = "?st\<lparr>tubes := [exampleTube 0 [0, 0, 0], exampleTube 1 [1, 1, 1, 1],
                        exampleTube 2 [0], exampleTube 3 []],
                 selectedTubeId := None, moves := 1, history := [?b]\<rparr>"
  have v: "isValidMove (exampleTube 0 [0, 0, 0, 0]) (exampleTube 2 [])"
    by (simp add: example_defs isValidMove_def)
  have run: "handleTubeClick (Some ?st) 2 = Inr (Some ?st1)"
    by (simp add: handleTubeClick_def tubeClickUpdate_def findTube_def isValidMove_def
        moveBall_def checkWinCondition_def tubeSorted_def TUBE_CAPACITY_def example_defs)
  have pl: "\<not> isCompleted ?st1" "\<not> isFailed ?st1" by (simp_all add: exampleState_def)
  have h: "\<not> isCompleted ?st \<and> \<not> isFailed ?st \<and> selectedTubeId ?st = Some 0 \<and> (0::int) \<noteq> 2
        \<and> findTube (tubes ?st) 0 = Some (exampleTube 0 [0, 0, 0, 0])
        \<and> findTube (tubes ?st) 2 = Some (exampleTube 2 [])
        \<and> isValidMove (exampleTube 0 [0, 0, 0, 0]) (exampleTube 2 [])
        \<and> handleTubeClick (Some ?st) 2 = Inr (Some ?st1)
        \<and> \<not> isCompleted ?st1 \<and> \<not> isFailed ?st1"
    using run v by (simp add: example_defs findTube_def)
  obtain st2 where u: "handleUndo (Some ?st1) = Some st2" "tubes st2 = tubes ?st"
      "history st2 = history ?st" "moves st2 = moves ?st1" "moves st2 = moves ?st + 1"
    using handleUndo_spec [of ?st] h by blast
  have noop: "handleUndo (Some st2) = Some st2"
    using handleUndo_spec [of st2] u(3) by (simp add: exampleState_def)
  have ne: "tubes ?st1 \<noteq> ?b" by (simp add: example_defs)
  show ?thesis
    apply (rule exI [of _ ?st1], rule exI [of _ st2])
    using run v pl ne u noop by (simp add: exampleState_def)
qed

text \<open>
  Claim C8. \<^verbatim>\<open>handleReset\<close> sets the board to a fresh copy of \<^verbatim>\<open>initialTubes\<close>, equal
  to it by value, and keeps \<^verbatim>\<open>initialTubes\<close>; it clears the selection and the history,
  sets \<open>moves\<close> to 0 and both flags to false, and sets \<open>timeLeft\<close> to \<open>totalTime\<close>,
  the time limit of the level. A click after the reset leaves \<^verbatim>\<open>initialTubes\<close> as it was.
\<close>

theorem handleReset_spec:
  "\<exists>st'. handleReset (Some st) = Some st'
     \<and> tubes st' = deepClone (initialTubes st)
     \<and> tubes st' = initialTubes st
     \<and> initialTubes st' = initialTubes st
     \<and> selectedTubeId st' = None
     \<and> moves st' = 0
     \<and> history st' = []
     \<and> \<not> isCompleted st' \<and> \<not> isFailed st'
     \<and> timeLeft st' = totalTime st'
     \<and> totalTime st' = timeLimit (getLevelConfig (level st))
     \<and> (totalTime st = timeLimit (getLevelConfig (level st)) \<longrightarrow> timeLeft st' = totalTime st)
     \<and> level st' = level st
     \<and> maxMoves st' = LevelConfig.maxMoves (getLevelConfig (level st))
     \<and> (\<forall>d st''. handleTubeClick (Some st') d = Inr (Some st'')
           \<longrightarrow> initialTubes st'' = initialTubes st)"
proof -
  let ?c = "getLevelConfig (level st)"
  let ?st' = "st\<lparr>tubes := deepClone (initialTubes st), initialTubes := initialTubes st,
                     selectedTubeId := None, moves := 0,
                     maxMoves := LevelConfig.maxMoves ?c,
                     isCompleted := False, isFailed := False, history := [],
                     timeLeft := timeLimit ?c, totalTime := timeLimit ?c\<rparr>"
  have run: "handleReset (Some st) = Some ?st'"
    by (simp add: handleReset_def Let_def)
  have frame: "\<forall>d st''. handleTubeClick (Some ?st') d = Inr (Some st'')
           \<longrightarrow> initialTubes st'' = initialTubes st"
    by (auto simp: handleTubeClick_def tubeClickUpdate_def Let_def
        split: option.splits if_splits)
  have fields: "tubes ?st' = deepClone (initialTubes st)"
    "tubes ?st' = initialTubes st"
    "initialTubes ?st' = initialTubes st"
    "selectedTubeId ?st' = None"
    "moves ?st' = 0"
    "history ?st' = []"
    "\<not> isCompleted ?st'" "\<not> isFailed ?st'"
    "timeLeft ?st' = totalTime ?st'"
    "totalTime ?st' = timeLimit ?c"
    "totalTime st = timeLimit ?c \<longrightarrow> timeLeft ?st' = totalTime st"
    "level ?st' = level st"
    "maxMoves ?st' = LevelConfig.maxMoves ?c"
    by (simp_all add: deepClone_eq)
  show ?thesis
    by (rule exI [of _ ?st'], intro conjI) (fact run fields frame)+
qed

text \<open>
  The scenario of C8: a session of level 0 after three moves is reset to the solved board
  and to 125 seconds.
\<close>

theorem handleReset_spec_witness:
  "totalTime (exampleState [exampleTube 0 [0, 0], exampleTube 1 [1, 1, 1, 1],
        exampleTube 2 [0], exampleTube 3 [0]] (Some 1) 3)
     = timeLimit (getLevelConfig (level (exampleState [exampleTube 0 [0, 0],
        exampleTube 1 [1, 1, 1, 1], exampleTube 2 [0], exampleTube 3 [0]] (Some 1) 3)))
   \<and> (\<exists>st'. handleReset (Some (exampleState [exampleTube 0 [0, 0], exampleTube 1 [1, 1, 1, 1],
          exampleTube 2 [0], exampleTube 3 [0]] (Some 1) 3)) = Some st'
        \<and> tubes st' = [exampleTube 0 [0, 0, 0, 0], exampleTube 1 [1, 1, 1, 1],
                        exampleTube 2 [], exampleTube 3 []]
        \<and> initialTubes st' = [exampleTube 0 [0, 0, 0, 0], exampleTube 1 [1, 1, 1, 1],
                        exampleTube 2 [], exampleTube 3 []]
        \<and> selectedTubeId st' = None \<and> moves st' = 0 \<and> history st' = []
        \<and> \<not> isCompleted st' \<and> \<not> isFailed st'
        \<and> timeLeft st' = 125 \<and> totalTime st' = 125)"
proof -
  let ?st = "exampleState [exampleTube 0 [0, 0], exampleTube 1 [1, 1, 1, 1],
        exampleTube 2 [0], exampleTube 3 [0]] (Some 1) 3"
  have t: "totalTime ?st = timeLimit (getLevelConfig (level ?st))"
    by (simp add: exampleState_def getLevelConfig_def Let_def)
  obtain st' where r: "handleReset (Some ?st) = Some st'"
      "tubes st' = initialTubes ?st" "initialTubes st' = initialTubes ?st"
      "selectedTubeId st' = None" "moves st' = 0" "history st' = []"
      "\<not> isCompleted st'" "\<not> isFailed st'" "timeLeft st' = totalTime st'"
      "totalTime ?st = timeLimit (getLevelConfig (level ?st)) \<longrightarrow> timeLeft st' = totalTime ?st"
    using handleReset_spec [of ?st] by blast
  have "timeLeft st' = 125" "totalTime st' = 125"
    using r(9,10) t by (simp_all add: exampleState_def)
  then show ?thesis
    using t r by (intro conjI exI [of _ st']) (simp_all add: exampleState_def)
qed

subsection \<open>Facts about the level generator\<close>

lemma length_filter_concat:
  "length (filter P (concat xss)) = sum_list (map (\<lambda>xs. length (filter P xs)) xss)"
  by (induction xss) simp_all

lemma ballsOfColor_count: "ballsOfColor c board = countBalls (\<lambda>b. colorId b = c) board"
  unfolding ballsOfColor_def countBalls_def length_filter_concat
  by (simp add: sum_list_sum_nth atLeast0LessThan)

lemma sum_swap_two:
  fixes g h :: "nat \<Rightarrow> nat"
  assumes "i < n" "j < n" "i \<noteq> j"
    and "\<And>k. k < n \<Longrightarrow> k \<noteq> i \<Longrightarrow> k \<noteq> j \<Longrightarrow> g k = h k"
    and "g i + g j = h i + h j"
  shows "sum g {..<n} = sum h {..<n}"
proof -
  let ?R = "{..<n} - {i} - {j}"
  have fin: "finite {..<n}" "finite ({..<n} - {i})" by simp_all
  have mem: "i \<in> {..<n}" "j \<in> {..<n} - {i}" using assms(1-3) by auto
  have g: "sum g {..<n} = g i + (g j + sum g ?R)"
    using sum.remove [OF fin(1) mem(1), of g] sum.remove [OF fin(2) mem(2), of g] by simp
  have h: "sum h {..<n} = h i + (h j + sum h ?R)"
    using sum.remove [OF fin(1) mem(1), of h] sum.remove [OF fin(2) mem(2), of h] by simp
  have "sum g ?R = sum h ?R"
    by (rule sum.cong) (auto intro: assms(4))
  with g h assms(5) show ?thesis by simp
qed

lemma length_performMove: "length (performMove board m) = length board"
  by (simp add: performMove_def Let_def)

lemma performMove_nth:
  assumes "from_tube m < length board" "to_tube m < length board" "from_tube m \<noteq> to_tube m"
    and "k < length board"
  shows "performMove board m ! k =
     (if k = to_tube m
        then (board ! k)\<lparr>balls := balls (board ! k) @ [last (balls (board ! from_tube m))]\<rparr>
      else if k = from_tube m then (board ! k)\<lparr>balls := butlast (balls (board ! k))\<rparr>
      else board ! k)"
  using assms by (auto simp: performMove_def Let_def nth_list_update)

lemma countBalls_performMove:
  assumes f: "from_tube m < length board" and t: "to_tube m < length board"
    and ne: "from_tube m \<noteq> to_tube m" and src: "balls (board ! from_tube m) \<noteq> []"
  shows "countBalls P (performMove board m) = countBalls P board"
proof -
  let ?g = "\<lambda>k. length (filter P (balls (performMove board m ! k)))"
  let ?h = "\<lambda>k. length (filter P (balls (board ! k)))"
  have rest: "\<And>k. k < length board \<Longrightarrow> k \<noteq> from_tube m \<Longrightarrow> k \<noteq> to_tube m \<Longrightarrow> ?g k = ?h k"
    using performMove_nth [OF f t ne] by simp
  obtain bs b where bs: "balls (board ! from_tube m) = bs @ [b]"
    using src by (metis append_butlast_last_id)
  have two: "?g (from_tube m) + ?g (to_tube m) = ?h (from_tube m) + ?h (to_tube m)"
    using performMove_nth [OF f t ne f] performMove_nth [OF f t ne t] ne bs by simp
  show ?thesis
    unfolding countBalls_def length_performMove
    by (rule sum_swap_two [OF f t ne rest two])
qed

lemma availableMoves_sound:
  "m \<in> set (availableMoves board n) \<longleftrightarrow>
     from_tube m < n \<and> to_tube m < n \<and> from_tube m \<noteq> to_tube m
     \<and> balls (board ! from_tube m) \<noteq> []
     \<and> length (balls (board ! to_tube m)) < capacity (board ! to_tube m)"
  by (cases m) (auto simp: availableMoves_def)

lemma movePool_cases:
  "movePool board n p =
     (if \<exists>m \<in> set (availableMoves board n). int (to_tube m) \<noteq> p
      then filter (\<lambda>m. int (to_tube m) \<noteq> p) (availableMoves board n)
      else availableMoves board n)"
  by (auto simp: movePool_def Let_def filter_empty_conv)

lemma movePool_subset: "set (movePool board n p) \<subseteq> set (availableMoves board n)"
  by (auto simp: movePool_cases)

lemma movePool_empty: "movePool board n p = [] \<longleftrightarrow> availableMoves board n = []"
  by (auto simp: movePool_cases filter_empty_conv)

lemma boardInv_performMove:
  assumes inv: "boardInv n board"
    and f: "from_tube m < n" and t: "to_tube m < n" and ne: "from_tube m \<noteq> to_tube m"
    and room: "length (balls (board ! to_tube m)) < capacity (board ! to_tube m)"
  shows "boardInv n (performMove board m)"
proof -
  have len: "length board = n" using inv by (simp add: boardInv_def)
  have nth: "\<And>k. k < n \<Longrightarrow> performMove board m ! k =
     (if k = to_tube m
        then (board ! k)\<lparr>balls := balls (board ! k) @ [last (balls (board ! from_tube m))]\<rparr>
      else if k = from_tube m then (board ! k)\<lparr>balls := butlast (balls (board ! k))\<rparr>
      else board ! k)"
    using performMove_nth [of m board] f t ne len by simp
  have old: "\<And>k. k < n \<Longrightarrow> id_tube (board ! k) = int k \<and> capacity (board ! k) = TUBE_CAPACITY
            \<and> length (balls (board ! k)) \<le> TUBE_CAPACITY"
    using inv by (simp add: boardInv_def)
  have room': "length (balls (board ! to_tube m)) < TUBE_CAPACITY"
    using room old [OF t] by simp
  show ?thesis
    unfolding boardInv_def length_performMove
  proof (intro conjI allI impI)
    show "length board = n" by (fact len)
  next
    fix k assume k: "k < n"
    show "id_tube (performMove board m ! k) = int k"
      using nth [OF k] old [OF k] old [OF f] old [OF t] by simp
    show "capacity (performMove board m ! k) = TUBE_CAPACITY"
      using nth [OF k] old [OF k] old [OF f] old [OF t] by simp
    show "length (balls (performMove board m ! k)) \<le> TUBE_CAPACITY"
      using nth [OF k] old [OF k] old [OF f] old [OF t] room' by auto
  qed
qed

lemma colorInv_performMove:
  assumes "colorInv colors board"
    and "from_tube m < length board" "to_tube m < length board" "from_tube m \<noteq> to_tube m"
    and "balls (board ! from_tube m) \<noteq> []"
  shows "colorInv colors (performMove board m)"
  using assms by (simp add: colorInv_def countBalls_performMove)

lemma floor_pick:
  fixes r :: real
  assumes "0 \<le> r" "r < 1" "0 < n"
  shows "0 \<le> \<lfloor>r * real n\<rfloor> \<and> \<lfloor>r * real n\<rfloor> < int n"
proof
  show "0 \<le> \<lfloor>r * real n\<rfloor>" using assms by simp
  have "r * real n < real n" using assms by simp
  then show "\<lfloor>r * real n\<rfloor> < int n" by (simp add: floor_less_iff)
qed

lemma shuffleLoop_inv:
  "\<forall>k. 0 \<le> random k \<and> random k < 1 \<Longrightarrow> boardInv n board \<Longrightarrow> colorInv colors board \<Longrightarrow>
    \<exists>b. shuffleLoop random count n i board p = Inr b \<and> boardInv n b \<and> colorInv colors b"
proof (induction random count n i board p rule: shuffleLoop.induct)
  case (1 random count totalTubes i board previousSource)
  let ?pool = "movePool board totalTubes previousSource"
  let ?k = "\<lfloor>random i * real (length ?pool)\<rfloor>"
  let ?m = "?pool ! nat ?k"
  show ?case
  proof (cases "int i < count \<and> 0 < length ?pool")
    case False
    then have "shuffleLoop random count totalTubes i board previousSource = Inr board"
      by (subst shuffleLoop.simps) (auto simp: Let_def)
    then show ?thesis using "1.prems" by simp
  next
    case True
    then have go: "int i < count" and pos: "0 < length ?pool" by simp_all
    have rng: "0 \<le> ?k \<and> ?k < int (length ?pool)"
      using floor_pick [of "random i" "length ?pool"] "1.prems"(1) pos by blast
    then have "nat ?k < length ?pool" by linarith
    then have "?m \<in> set (availableMoves board totalTubes)"
      using movePool_subset [of board totalTubes previousSource] nth_mem by blast
    then have m: "from_tube ?m < totalTubes" "to_tube ?m < totalTubes"
      "from_tube ?m \<noteq> to_tube ?m" "balls (board ! from_tube ?m) \<noteq> []"
      "length (balls (board ! to_tube ?m)) < capacity (board ! to_tube ?m)"
      by (simp_all add: availableMoves_sound)
    have len: "length board = totalTubes" using "1.prems"(2) by (simp add: boardInv_def)
    have b: "boardInv totalTubes (performMove board ?m)"
      using boardInv_performMove [OF "1.prems"(2) m(1,2,3,5)] .
    have c: "colorInv colors (performMove board ?m)"
      using colorInv_performMove [OF "1.prems"(3)] m len by simp
    have "\<exists>b. shuffleLoop random count totalTubes (i + 1) (performMove board ?m)
            (int (from_tube ?m)) = Inr b \<and> boardInv totalTubes b \<and> colorInv colors b"
      using "1.IH" [OF go refl pos refl rng refl "1.prems"(1) b c] .
    moreover have "shuffleLoop random count totalTubes i board previousSource
        = shuffleLoop random count totalTubes (i + 1) (performMove board ?m) (int (from_tube ?m))"
      using go pos rng by (subst shuffleLoop.simps) (simp add: Let_def)
    ultimately show ?thesis by simp
  qed
qed

lemma solvedState_nth:
  "k < n \<Longrightarrow> solvedState u colors n ! k =
     \<lparr>id_tube = int k,
      balls = (if int k < colors
               then map (\<lambda>j. \<lparr>id_ball = u (k * TUBE_CAPACITY + j), colorId = int k\<rparr>)
                      [0..<TUBE_CAPACITY]
               else []),
      capacity = TUBE_CAPACITY\<rparr>"
  by (simp add: solvedState_def)

lemma length_solvedState: "length (solvedState u colors n) = n"
  by (simp add: solvedState_def)

lemma boardInv_solvedState: "boardInv n (solvedState u colors n)"
  by (simp add: boardInv_def length_solvedState solvedState_nth)

lemma filter_const_color:
  "filter (\<lambda>b. colorId b = c) (map (\<lambda>j. \<lparr>id_ball = f j, colorId = d\<rparr>) js)
     = (if d = c then map (\<lambda>j. \<lparr>id_ball = f j, colorId = d\<rparr>) js else [])"
  by (induction js) auto

lemma sum_below:
  fixes a :: nat
  assumes "m \<le> n"
  shows "(\<Sum>k<n. if k < m then a else 0) = a * m"
proof -
  have eq: "{..<n} \<inter> {k. k < m} = {..<m}" using assms by auto
  show ?thesis by (simp add: sum.If_cases eq)
qed

lemma colorInv_solvedState:
  assumes "0 \<le> colors" "0 \<le> empties"
  shows "colorInv colors (solvedState u colors (nat (colors + empties)))"
proof -
  let ?n = "nat (colors + empties)"
  let ?b = "solvedState u colors ?n"
  have one: "countBalls (\<lambda>b. colorId b = c) ?b
      = (if 0 \<le> c \<and> c < colors then TUBE_CAPACITY else 0)" for c
  proof -
    have "countBalls (\<lambda>b. colorId b = c) ?b
        = (\<Sum>k<?n. if k = nat c then (if 0 \<le> c \<and> c < colors then TUBE_CAPACITY else 0) else 0)"
      unfolding countBalls_def length_solvedState
      by (rule sum.cong) (auto simp: solvedState_nth filter_const_color)
    also have "\<dots> = (if 0 \<le> c \<and> c < colors then TUBE_CAPACITY else 0)"
      using assms by simp
    finally show ?thesis .
  qed
  have "countBalls (\<lambda>b. True) ?b = (\<Sum>k<?n. if k < nat colors then TUBE_CAPACITY else 0)"
    unfolding countBalls_def length_solvedState
    by (rule sum.cong) (auto simp: solvedState_nth)
  also have "\<dots> = TUBE_CAPACITY * nat colors"
    using assms by (intro sum_below) simp
  finally show ?thesis
    using one by (simp add: colorInv_def)
qed

lemma firstIndex_Some:
  "firstIndex P xs = Some j \<Longrightarrow> j < length xs \<and> P (xs ! j)"
  by (induction xs arbitrary: j) (auto split: if_splits)

lemma firstIndex_None: "firstIndex P xs = None \<Longrightarrow> x \<in> set xs \<Longrightarrow> \<not> P x"
  by (induction xs) (auto split: if_splits)

lemma solvedTube_full: "solvedTube t \<Longrightarrow> length (balls t) = TUBE_CAPACITY"
  by (simp add: solvedTube_def)

lemma breakSolved_cases:
  "breakSolved i (board, h) = (board, h) \<and> \<not> solvedTube (board ! i)
   \<or> breakSolved i (board, h) = (board, True) \<and> solvedTube (board ! i)
      \<and> firstIndex (\<lambda>t. id_tube t \<noteq> int i \<and> length (balls t) < capacity t) board = None
   \<or> (\<exists>j. breakSolved i (board, h) = (performMove board \<lparr>from_tube = i, to_tube = j\<rparr>, True)
        \<and> solvedTube (board ! i)
        \<and> firstIndex (\<lambda>t. id_tube t \<noteq> int i \<and> length (balls t) < capacity t) board = Some j)"
  by (auto simp: breakSolved_def split: option.splits)

lemma validDest_props:
  assumes inv: "boardInv n board" and i: "i < n"
    and fi: "firstIndex (\<lambda>t. id_tube t \<noteq> int i \<and> length (balls t) < capacity t) board = Some j"
  shows "j < n" "j \<noteq> i" "length (balls (board ! j)) < capacity (board ! j)"
proof -
  have len: "length board = n" using inv by (simp add: boardInv_def)
  from firstIndex_Some [OF fi] len
  have j: "j < n" and p: "id_tube (board ! j) \<noteq> int i"
    "length (balls (board ! j)) < capacity (board ! j)" by simp_all
  show "j < n" by (fact j)
  show "length (balls (board ! j)) < capacity (board ! j)" by (fact p(2))
  have "id_tube (board ! j) = int j" using inv j by (simp add: boardInv_def)
  with p(1) show "j \<noteq> i" by auto
qed

lemma breakSolved_inv:
  assumes inv: "boardInv n board" and col: "colorInv colors board" and i: "i < n"
  shows "boardInv n (fst (breakSolved i (board, h)))
       \<and> colorInv colors (fst (breakSolved i (board, h)))"
proof -
  have len: "length board = n" using inv by (simp add: boardInv_def)
  consider
    (same) "fst (breakSolved i (board, h)) = board"
  | (moved) j where "fst (breakSolved i (board, h)) = performMove board \<lparr>from_tube = i, to_tube = j\<rparr>"
      "solvedTube (board ! i)"
      "firstIndex (\<lambda>t. id_tube t \<noteq> int i \<and> length (balls t) < capacity t) board = Some j"
    using breakSolved_cases [of i board h] by auto
  then show ?thesis
  proof cases
    case same
    then show ?thesis using inv col by simp
  next
    case (moved j)
    note d = validDest_props [OF inv i moved(3)]
    have ne: "balls (board ! i) \<noteq> []"
      using solvedTube_full [OF moved(2)] by (auto simp: TUBE_CAPACITY_def)
    have "boardInv n (performMove board \<lparr>from_tube = i, to_tube = j\<rparr>)"
      using boardInv_performMove [OF inv, of "\<lparr>from_tube = i, to_tube = j\<rparr>"] i d by simp
    moreover have "colorInv colors (performMove board \<lparr>from_tube = i, to_tube = j\<rparr>)"
      using colorInv_performMove [OF col, of "\<lparr>from_tube = i, to_tube = j\<rparr>"] i d ne len by simp
    ultimately show ?thesis using moved(1) by simp
  qed
qed

lemma sum_two_le:
  fixes g :: "nat \<Rightarrow> nat"
  assumes "i < n" "j < n" "i \<noteq> j"
  shows "g i + g j \<le> sum g {..<n}"
proof -
  have fin: "finite {..<n}" "finite ({..<n} - {i})" by simp_all
  have mem: "i \<in> {..<n}" "j \<in> {..<n} - {i}" using assms by auto
  have "sum g {..<n} = g i + (g j + sum g ({..<n} - {i} - {j}))"
    using sum.remove [OF fin(1) mem(1), of g] sum.remove [OF fin(2) mem(2), of g] by simp
  then show ?thesis by simp
qed

lemma has_room:
  assumes inv: "boardInv n board" and col: "colorInv colors board"
    and spare: "nat colors < n" and i: "i < n"
    and full: "length (balls (board ! i)) = TUBE_CAPACITY"
  shows "\<exists>j<n. j \<noteq> i \<and> length (balls (board ! j)) < TUBE_CAPACITY"
proof (rule ccontr)
  assume "\<not> ?thesis"
  then have all: "\<And>k. k < n \<Longrightarrow> TUBE_CAPACITY \<le> length (balls (board ! k))"
    using full by (metis not_less order_refl)
  have len: "length board = n" using inv by (simp add: boardInv_def)
  have "(\<Sum>k<n. TUBE_CAPACITY) \<le> (\<Sum>k<n. length (balls (board ! k)))"
    by (rule sum_mono) (simp add: all)
  then have "TUBE_CAPACITY * n \<le> countBalls (\<lambda>b. True) board"
    by (simp add: countBalls_def len mult.commute)
  also have "\<dots> = TUBE_CAPACITY * nat colors" using col by (simp add: colorInv_def)
  finally show False using spare by (simp add: TUBE_CAPACITY_def)
qed

lemma solved_color_elsewhere:
  assumes inv: "boardInv n board" and col: "colorInv colors board"
    and i: "i < n" and j: "j < n" and ne: "j \<noteq> i"
    and solved: "solvedTube (board ! i)"
    and b: "b \<in> set (balls (board ! j))"
  shows "colorId b \<noteq> colorId (balls (board ! i) ! 0)"
proof
  let ?c = "colorId (balls (board ! i) ! 0)"
  let ?g = "\<lambda>k. length (filter (\<lambda>b. colorId b = ?c) (balls (board ! k)))"
  assume eq: "colorId b = ?c"
  have len: "length board = n" using inv by (simp add: boardInv_def)
  have "filter (\<lambda>b. colorId b = ?c) (balls (board ! i)) = balls (board ! i)"
    using solved by (simp add: solvedTube_def Let_def list_all_iff)
  then have gi: "?g i = TUBE_CAPACITY" using solvedTube_full [OF solved] by simp
  have "b \<in> set (filter (\<lambda>b. colorId b = ?c) (balls (board ! j)))" using b eq by simp
  then have gj: "0 < ?g j" by (metis length_pos_if_in_set)
  have "?g i + ?g j \<le> countBalls (\<lambda>b. colorId b = ?c) board"
    unfolding countBalls_def len using i j ne by (intro sum_two_le) auto
  also have "\<dots> \<le> TUBE_CAPACITY" using col by (simp add: colorInv_def)
  finally show False using gi gj by simp
qed

lemma breakSolved_unsolved:
  assumes inv: "boardInv n board" and col: "colorInv colors board"
    and spare: "nat colors < n" and i: "i < n"
  shows "\<not> solvedTube (fst (breakSolved i (board, h)) ! i)
       \<and> (\<forall>k<n. \<not> solvedTube (board ! k)
              \<longrightarrow> \<not> solvedTube (fst (breakSolved i (board, h)) ! k))"
proof -
  have len: "length board = n" using inv by (simp add: boardInv_def)
  let ?P = "\<lambda>t. id_tube t \<noteq> int i \<and> length (balls t) < capacity t"
  consider
    (same) "breakSolved i (board, h) = (board, h)" "\<not> solvedTube (board ! i)"
  | (stuck) "solvedTube (board ! i)" "firstIndex ?P board = None"
  | (moved) j where "fst (breakSolved i (board, h)) = performMove board \<lparr>from_tube = i, to_tube = j\<rparr>"
      "solvedTube (board ! i)" "firstIndex ?P board = Some j"
    using breakSolved_cases [of i board h] by auto
  then show ?thesis
  proof cases
    case same
    then show ?thesis by simp
  next
    case stuck
    obtain j where j: "j < n" "j \<noteq> i" "length (balls (board ! j)) < TUBE_CAPACITY"
      using has_room [OF inv col spare i solvedTube_full [OF stuck(1)]] by blast
    have "board ! j \<in> set board" using j(1) len by simp
    moreover have "?P (board ! j)" using inv j by (simp add: boardInv_def)
    ultimately show ?thesis using firstIndex_None [OF stuck(2)] by blast
  next
    case (moved j)
    note d = validDest_props [OF inv i moved(3)]
    let ?m = "\<lparr>from_tube = i, to_tube = j\<rparr>"
    let ?b' = "performMove board ?m"
    have nth: "\<And>k. k < n \<Longrightarrow> ?b' ! k =
       (if k = j then (board ! k)\<lparr>balls := balls (board ! k) @ [last (balls (board ! i))]\<rparr>
        else if k = i then (board ! k)\<lparr>balls := butlast (balls (board ! k))\<rparr>
        else board ! k)"
      using performMove_nth [of ?m board] i d len by simp
    have full: "length (balls (board ! i)) = TUBE_CAPACITY"
      by (rule solvedTube_full [OF moved(2)])
    then have nonempty: "balls (board ! i) \<noteq> []" by (auto simp: TUBE_CAPACITY_def)
    have src: "\<not> solvedTube (?b' ! i)"
      using nth [OF i] d(2) full by (simp add: solvedTube_def TUBE_CAPACITY_def)
    have dst: "\<not> solvedTube (?b' ! j)"
    proof
      assume s: "solvedTube (?b' ! j)"
      let ?old = "balls (board ! j)"
      let ?ball = "last (balls (board ! i))"
      have bj: "balls (?b' ! j) = ?old @ [?ball]" using nth [OF d(1)] by simp
      have "length (?old @ [?ball]) = TUBE_CAPACITY"
        using solvedTube_full [OF s] bj by simp
      then have "?old \<noteq> []" by (auto simp: TUBE_CAPACITY_def)
      then have first: "(?old @ [?ball]) ! 0 = ?old ! 0" "?old ! 0 \<in> set ?old"
        by (simp_all add: nth_append)
      have "colorId ?ball = colorId (?old ! 0)"
        using s first(1) by (simp add: solvedTube_def bj Let_def)
      moreover have "colorId ?ball = colorId (balls (board ! i) ! 0)"
        using moved(2) nonempty by (simp add: solvedTube_def Let_def list_all_iff)
      ultimately show False
        using solved_color_elsewhere [OF inv col i d(1) d(2) moved(2) first(2)] by simp
    qed
    have "\<forall>k<n. \<not> solvedTube (board ! k) \<longrightarrow> \<not> solvedTube (?b' ! k)"
      using nth src dst by auto
    then show ?thesis using src moved(1) by simp
  qed
qed

lemma fold_breakSolved_inv:
  assumes "boardInv n board" "colorInv colors board" "k \<le> n"
  shows "boardInv n (fst (fold breakSolved [0..<k] (board, h)))
       \<and> colorInv colors (fst (fold breakSolved [0..<k] (board, h)))"
  using assms(3)
proof (induction k)
  case 0
  then show ?case using assms by simp
next
  case (Suc k)
  obtain b' h' where s: "fold breakSolved [0..<k] (board, h) = (b', h')"
    by (cases "fold breakSolved [0..<k] (board, h)")
  with Suc have "boardInv n b'" "colorInv colors b'" by simp_all
  then show ?case
    using breakSolved_inv [of n b' colors k h'] Suc.prems s by simp
qed

lemma fold_breakSolved_unsolved:
  assumes "boardInv n board" "colorInv colors board" "nat colors < n" "k \<le> n"
  shows "\<forall>i<k. \<not> solvedTube (fst (fold breakSolved [0..<k] (board, h)) ! i)"
  using assms(4)
proof (induction k)
  case 0
  then show ?case by simp
next
  case (Suc k)
  obtain b' h' where s: "fold breakSolved [0..<k] (board, h) = (b', h')"
    by (cases "fold breakSolved [0..<k] (board, h)")
  have inv: "boardInv n b'" "colorInv colors b'"
    using fold_breakSolved_inv [OF assms(1,2), of k h] Suc.prems s by simp_all
  have old: "\<forall>i<k. \<not> solvedTube (b' ! i)" using Suc s by simp
  have k: "k < n" using Suc.prems by simp
  have step: "fold breakSolved [0..<Suc k] (board, h) = breakSolved k (b', h')"
    using s by simp
  show ?case
    unfolding step
    using breakSolved_unsolved [OF inv assms(3) k, of h'] old k
    by (auto simp: less_Suc_eq)
qed

lemma validateLoop_stop: "\<not> (h \<and> a < 100) \<Longrightarrow> validateLoop n board h a = board"
  by (subst validateLoop.simps) auto

lemma validateLoop_step:
  "h \<Longrightarrow> a < 100 \<Longrightarrow>
   validateLoop n board h a =
     validateLoop n (fst (fold breakSolved [0..<n] (board, False)))
       (snd (fold breakSolved [0..<n] (board, False))) (a + 1)"
  by (subst validateLoop.simps) simp

lemma validateLoop_inv:
  "boardInv n board \<Longrightarrow> colorInv colors board \<Longrightarrow>
   boardInv n (validateLoop n board h a) \<and> colorInv colors (validateLoop n board h a)"
proof (induction n board h a rule: validateLoop.induct)
  case (1 totalTubes board hasSolvedTube attempts)
  show ?case
  proof (cases "hasSolvedTube \<and> attempts < 100")
    case True
    have "boardInv totalTubes (fst (fold breakSolved [0..<totalTubes] (board, False)))
        \<and> colorInv colors (fst (fold breakSolved [0..<totalTubes] (board, False)))"
      using fold_breakSolved_inv [OF "1.prems", of totalTubes False] by simp
    then show ?thesis
      using "1.IH" [OF True] True by (simp add: validateLoop_step)
  next
    case False
    then show ?thesis using "1.prems" by (simp add: validateLoop_stop)
  qed
qed

lemma validateLoop_unsolved:
  "boardInv n board \<Longrightarrow> colorInv colors board \<Longrightarrow> nat colors < n \<Longrightarrow>
   (h \<and> a < 100) \<or> (\<forall>i<n. \<not> solvedTube (board ! i)) \<Longrightarrow>
   \<forall>i<n. \<not> solvedTube (validateLoop n board h a ! i)"
proof (induction n board h a rule: validateLoop.induct)
  case (1 totalTubes board hasSolvedTube attempts)
  show ?case
  proof (cases "hasSolvedTube \<and> attempts < 100")
    case True
    let ?s = "fold breakSolved [0..<totalTubes] (board, False)"
    have inv: "boardInv totalTubes (fst ?s)" "colorInv colors (fst ?s)"
      using fold_breakSolved_inv [OF "1.prems"(1,2), of totalTubes False] by simp_all
    have "\<forall>i<totalTubes. \<not> solvedTube (fst ?s ! i)"
      using fold_breakSolved_unsolved [OF "1.prems"(1,2,3), of totalTubes False] by simp
    then have "\<forall>i<totalTubes. \<not> solvedTube
        (validateLoop totalTubes (fst ?s) (snd ?s) (attempts + 1) ! i)"
      using "1.IH" [OF True inv "1.prems"(3)] by blast
    then show ?thesis using True by (simp add: validateLoop_step)
  next
    case False
    then have "validateLoop totalTubes board hasSolvedTube attempts = board"
      by (rule validateLoop_stop)
    then show ?thesis using False "1.prems"(4) by auto
  qed
qed

lemma generateLevel_inv:
  assumes nc: "0 \<le> numColors config" and ne: "0 \<le> numEmpty config"
    and rnd: "\<forall>k. 0 \<le> random k \<and> random k < 1"
  shows "\<exists>board. generateLevel random uuidv4 config = Inr board
     \<and> boardInv (nat (numColors config + numEmpty config)) board
     \<and> colorInv (numColors config) board
     \<and> (1 \<le> numEmpty config \<longrightarrow> (\<forall>i<length board. \<not> solvedTube (board ! i)))"
proof -
  let ?n = "nat (numColors config + numEmpty config)"
  let ?s = "solvedState uuidv4 (numColors config) ?n"
  have b0: "boardInv ?n ?s" by (rule boardInv_solvedState)
  have c0: "colorInv (numColors config) ?s" by (rule colorInv_solvedState [OF nc ne])
  obtain sh where sh: "shuffleLoop random (shuffles config) ?n 0 ?s (- 1) = Inr sh"
    "boardInv ?n sh" "colorInv (numColors config) sh"
    using shuffleLoop_inv [OF rnd b0 c0] by blast
  let ?v = "validateLoop ?n sh True 0"
  have run: "generateLevel random uuidv4 config = Inr ?v"
    using sh(1) by (simp add: generateLevel_def Let_def)
  have inv: "boardInv ?n ?v" "colorInv (numColors config) ?v"
    using validateLoop_inv [OF sh(2,3)] by simp_all
  have "1 \<le> numEmpty config \<longrightarrow> (\<forall>i<length ?v. \<not> solvedTube (?v ! i))"
  proof
    assume "1 \<le> numEmpty config"
    then have "nat (numColors config) < ?n" using nc by linarith
    then have "\<forall>i<?n. \<not> solvedTube (?v ! i)"
      using validateLoop_unsolved [OF sh(2,3), of True 0] by simp
    then show "\<forall>i<length ?v. \<not> solvedTube (?v ! i)"
      using inv(1) by (simp add: boardInv_def)
  qed
  with run inv show ?thesis by blast
qed

lemma solvedTube_iff:
  "solvedTube t \<longleftrightarrow> length (balls t) = TUBE_CAPACITY \<and> monochrome (balls t)"
proof (cases "balls t = []")
  case True
  then show ?thesis by (simp add: solvedTube_def TUBE_CAPACITY_def)
next
  case False
  then show ?thesis
    using all_first_monochrome [OF False] by (simp add: solvedTube_def Let_def)
qed

lemma countBalls_pos:
  assumes "0 < countBalls P board"
  shows "\<exists>k<length board. balls (board ! k) \<noteq> []"
proof (rule ccontr)
  assume "\<not> ?thesis"
  then have "countBalls P board = 0" by (simp add: countBalls_def)
  with assms show False by simp
qed

lemma validateLoop_fixed:
  "fst (fold breakSolved [0..<n] (board, False)) = board \<Longrightarrow> validateLoop n board h a = board"
proof (induction n board h a rule: validateLoop.induct)
  case (1 totalTubes board hasSolvedTube attempts)
  show ?case
  proof (cases "hasSolvedTube \<and> attempts < 100")
    case True
    then show ?thesis
      using "1.IH" [OF True] "1.prems" by (simp add: validateLoop_step)
  next
    case False
    then show ?thesis by (rule validateLoop_stop)
  qed
qed

lemma shuffleLoop_stop:
  "movePool board n p = [] \<Longrightarrow> shuffleLoop random count n i board p = Inr board"
  by (subst shuffleLoop.simps) (simp add: Let_def)

lemma upt_4: "[0..<4] = [0, 1, 2, 3]"
  by (simp add: upt_rec)

text \<open>
  Claim C4, as the specification words it (for every configuration), fails without an empty
  tube: the board of one colour and no empty tube has no legal move and no destination for
  the repair, and comes back solved.
\<close>

theorem generateLevel_no_empty_counterexample:
  "generateLevel (\<lambda>k. 0) (\<lambda>k. ''u'')
     \<lparr>numColors = 1, numEmpty = 0, shuffles = 60, maxMoves = 63, timeLimit = 125\<rparr>
   = Inr [\<lparr>id_tube = 0,
           balls = [\<lparr>id_ball = ''u'', colorId = 0\<rparr>, \<lparr>id_ball = ''u'', colorId = 0\<rparr>,
                    \<lparr>id_ball = ''u'', colorId = 0\<rparr>, \<lparr>id_ball = ''u'', colorId = 0\<rparr>],
           capacity = 4\<rparr>]
   \<and> checkWinCondition
       [\<lparr>id_tube = 0,
         balls = [\<lparr>id_ball = ''u'', colorId = 0\<rparr>, \<lparr>id_ball = ''u'', colorId = 0\<rparr>,
                  \<lparr>id_ball = ''u'', colorId = 0\<rparr>, \<lparr>id_ball = ''u'', colorId = 0\<rparr>],
         capacity = 4\<rparr>]"
proof -
  let ?b = "[\<lparr>id_tube = 0,
         balls = [\<lparr>id_ball = ''u'', colorId = 0\<rparr>, \<lparr>id_ball = ''u'', colorId = 0\<rparr>,
                  \<lparr>id_ball = ''u'', colorId = 0\<rparr>, \<lparr>id_ball = ''u'', colorId = 0\<rparr>],
         capacity = 4\<rparr>]"
  have s: "solvedState (\<lambda>k. ''u'') 1 (Suc 0) = ?b"
    by (simp add: solvedState_def TUBE_CAPACITY_def upt_4)
  have av: "availableMoves ?b (Suc 0) = []"
    by (simp add: availableMoves_def)
  then have pool: "movePool ?b (Suc 0) (- 1) = []" by (simp add: movePool_empty)
  have sh: "shuffleLoop (\<lambda>k. 0) 60 (Suc 0) 0 ?b (- 1) = Inr ?b"
    by (rule shuffleLoop_stop [OF pool])
  have "fst (fold breakSolved [0..<Suc 0] (?b, False)) = ?b"
    by (simp add: breakSolved_def solvedTube_def TUBE_CAPACITY_def)
  then have v: "validateLoop (Suc 0) ?b True 0 = ?b" by (rule validateLoop_fixed)
  have "generateLevel (\<lambda>k. 0) (\<lambda>k. ''u'')
     \<lparr>numColors = 1, numEmpty = 0, shuffles = 60, maxMoves = 63, timeLimit = 125\<rparr> = Inr ?b"
    by (simp add: generateLevel_def s sh v)
  moreover have "checkWinCondition ?b"
    by (simp add: checkWinCondition_def tubeSorted_def TUBE_CAPACITY_def)
  ultimately show ?thesis by simp
qed

text \<open>
  Claim C4, amended. For a configuration with \<open>numColors \<ge> 0\<close> and \<open>numEmpty \<ge> 0\<close>
  and any draws of \<^verbatim>\<open>Math.random()\<close> in \<open>[0, 1)\<close>, \<^verbatim>\<open>generateLevel\<close> returns a
  board of \<open>numColors + numEmpty\<close> tubes of capacity 4, none with more balls than its
  capacity, with exactly 4 balls of each colour below \<open>numColors\<close>. With at least one
  empty tube no tube of the board is full and monochrome, and with at least one colour as
  well the board is not won.
\<close>

theorem generateLevel_spec:
  assumes nc: "0 \<le> numColors config" and ne: "0 \<le> numEmpty config"
    and rnd: "\<forall>k. 0 \<le> random k \<and> random k < 1"
  shows "\<exists>board. generateLevel random uuidv4 config = Inr board
     \<and> length board = nat (numColors config + numEmpty config)
     \<and> (\<forall>t \<in> set board. capacity t = 4 \<and> length (balls t) \<le> capacity t)
     \<and> (\<forall>c. 0 \<le> c \<and> c < numColors config \<longrightarrow> ballsOfColor c board = 4)
     \<and> (1 \<le> numEmpty config \<longrightarrow>
          (\<forall>t \<in> set board. \<not> (length (balls t) = capacity t \<and> monochrome (balls t))))
     \<and> (1 \<le> numColors config \<and> 1 \<le> numEmpty config \<longrightarrow> \<not> checkWinCondition board)"
proof -
  let ?n = "nat (numColors config + numEmpty config)"
  obtain board where run: "generateLevel random uuidv4 config = Inr board"
    and b: "boardInv ?n board" and c: "colorInv (numColors config) board"
    and u: "1 \<le> numEmpty config \<longrightarrow> (\<forall>i<length board. \<not> solvedTube (board ! i))"
    using generateLevel_inv [OF nc ne rnd] by blast
  have len: "length board = ?n" using b by (simp add: boardInv_def)
  have caps: "\<forall>t \<in> set board. capacity t = 4 \<and> length (balls t) \<le> capacity t"
    using b by (auto simp: boardInv_def in_set_conv_nth TUBE_CAPACITY_def)
  have cols: "\<forall>c. 0 \<le> c \<and> c < numColors config \<longrightarrow> ballsOfColor c board = 4"
    using c by (simp add: colorInv_def ballsOfColor_count TUBE_CAPACITY_def)
  have uns: "1 \<le> numEmpty config \<longrightarrow>
          (\<forall>t \<in> set board. \<not> (length (balls t) = capacity t \<and> monochrome (balls t)))"
  proof (intro impI ballI)
    fix t assume e: "1 \<le> numEmpty config" and t: "t \<in> set board"
    then have "\<not> solvedTube t" using u by (auto simp: in_set_conv_nth)
    then show "\<not> (length (balls t) = capacity t \<and> monochrome (balls t))"
      using caps t by (simp add: solvedTube_iff TUBE_CAPACITY_def)
  qed
  have win: "1 \<le> numColors config \<and> 1 \<le> numEmpty config \<longrightarrow> \<not> checkWinCondition board"
  proof
    assume a: "1 \<le> numColors config \<and> 1 \<le> numEmpty config"
    then have "countBalls (\<lambda>b. colorId b = 0) board = TUBE_CAPACITY"
      using c by (simp add: colorInv_def)
    then have "0 < countBalls (\<lambda>b. colorId b = 0) board" by (simp add: TUBE_CAPACITY_def)
    then obtain k where k: "k < length board" "balls (board ! k) \<noteq> []"
      using countBalls_pos by blast
    have "\<not> solvedTube (board ! k)" using a u k(1) by simp
    then have "\<not> tubeSorted (board ! k)"
      using k(2) by (simp add: tubeSorted_iff solvedTube_iff)
    moreover have "board ! k \<in> set board" using k(1) by simp
    ultimately show "\<not> checkWinCondition board"
      by (auto simp: checkWinCondition_def list_all_iff)
  qed
  show ?thesis
    by (rule exI [of _ board], intro conjI) (fact run len caps cols uns win)+
qed

text \<open>An instance of C4: two colours, one empty tube, three shuffles, every draw 1/2.\<close>

theorem generateLevel_spec_witness:
  "0 \<le> numColors \<lparr>numColors = 2, numEmpty = 1, shuffles = 3, maxMoves = 6, timeLimit = 39\<rparr>
   \<and> 0 \<le> numEmpty \<lparr>numColors = 2, numEmpty = 1, shuffles = 3, maxMoves = 6, timeLimit = 39\<rparr>
   \<and> (\<forall>k. 0 \<le> (\<lambda>k. 1 / 2 :: real) k \<and> (\<lambda>k. 1 / 2 :: real) k < 1)
   \<and> (\<exists>board. generateLevel (\<lambda>k. 1 / 2) (\<lambda>k. ''ball'')
          \<lparr>numColors = 2, numEmpty = 1, shuffles = 3, maxMoves = 6, timeLimit = 39\<rparr> = Inr board
        \<and> length board = 3
        \<and> ballsOfColor 0 board = 4 \<and> ballsOfColor 1 board = 4
        \<and> \<not> checkWinCondition board)"
proof -
  let ?c = "\<lparr>numColors = 2, numEmpty = 1, shuffles = 3, maxMoves = 6, timeLimit = 39\<rparr>"
  have h: "0 \<le> numColors ?c" "0 \<le> numEmpty ?c"
    "\<forall>k. 0 \<le> (\<lambda>k. 1 / 2 :: real) k \<and> (\<lambda>k. 1 / 2 :: real) k < 1"
    by simp_all
  obtain board where b: "generateLevel (\<lambda>k. 1 / 2) (\<lambda>k. ''ball'') ?c = Inr board"
      "length board = nat (numColors ?c + numEmpty ?c)"
      "\<forall>c. 0 \<le> c \<and> c < numColors ?c \<longrightarrow> ballsOfColor c board = 4"
      "1 \<le> numColors ?c \<and> 1 \<le> numEmpty ?c \<longrightarrow> \<not> checkWinCondition board"
    using generateLevel_spec [OF h, of "\<lambda>k. ''ball''"] by blast
  have "length board = 3" "ballsOfColor 0 board = 4" "ballsOfColor 1 board = 4"
    "\<not> checkWinCondition board"
    using b(2,3,4) by simp_all
  with b(1) h show ?thesis by blast
qed

lemma distinct_concat_map:
  assumes "distinct xs" "\<And>x. x \<in> set xs \<Longrightarrow> distinct (f x)"
    and "\<And>x y. x \<in> set xs \<Longrightarrow> y \<in> set xs \<Longrightarrow> x \<noteq> y \<Longrightarrow> set (f x) \<inter> set (f y) = {}"
  shows "distinct (concat (map f xs))"
  using assms by (induction xs) auto

lemma distinct_availableMoves: "distinct (availableMoves board n)"
  unfolding availableMoves_def
proof (rule distinct_concat_map)
  show "distinct [0..<n]" by simp
next
  fix src
  show "distinct
          (if length (balls (board ! src)) \<noteq> 0
           then concat
                  (map (\<lambda>dest.
                          if src \<noteq> dest
                          then if length (balls (board ! dest)) < capacity (board ! dest)
                               then [\<lparr>from_tube = src, to_tube = dest\<rparr>] else []
                          else [])
                    [0..<n])
           else [])"
    by (auto intro!: distinct_concat_map)
next
  fix x y :: nat
  assume "x \<noteq> y"
  then show "set (if length (balls (board ! x)) \<noteq> 0
           then concat
                  (map (\<lambda>dest.
                          if x \<noteq> dest
                          then if length (balls (board ! dest)) < capacity (board ! dest)
                               then [\<lparr>from_tube = x, to_tube = dest\<rparr>] else []
                          else [])
                    [0..<n])
           else [])
       \<inter> set (if length (balls (board ! y)) \<noteq> 0
           then concat
                  (map (\<lambda>dest.
                          if y \<noteq> dest
                          then if length (balls (board ! dest)) < capacity (board ! dest)
                               then [\<lparr>from_tube = y, to_tube = dest\<rparr>] else []
                          else [])
                    [0..<n])
           else []) = {}"
    by (auto split: if_splits)
qed

lemma pick_interval:
  fixes r :: real
  assumes n: "0 < n" and k: "k < n"
  shows "{r. 0 \<le> r \<and> r < 1 \<and> nat \<lfloor>r * real n\<rfloor> = k}
       = {real k / real n ..< (real k + 1) / real n}"
proof (intro set_eqI iffI)
  fix r assume "r \<in> {r. 0 \<le> r \<and> r < 1 \<and> nat \<lfloor>r * real n\<rfloor> = k}"
  then have r: "0 \<le> r" "nat \<lfloor>r * real n\<rfloor> = k" by simp_all
  have "0 \<le> \<lfloor>r * real n\<rfloor>" using r(1) by simp
  then have "\<lfloor>r * real n\<rfloor> = int k" using r(2) by linarith
  then have "real k \<le> r * real n" "r * real n < real k + 1"
    by linarith+
  then show "r \<in> {real k / real n ..< (real k + 1) / real n}"
    using n by (simp add: field_simps)
next
  fix r assume "r \<in> {real k / real n ..< (real k + 1) / real n}"
  then have b: "real k \<le> r * real n" "r * real n < real k + 1"
    using n by (simp_all add: field_simps)
  then have fl: "\<lfloor>r * real n\<rfloor> = int k" by linarith
  have "0 \<le> r * real n" using b(1) by (meson of_nat_0_le_iff order_trans)
  then have r0: "0 \<le> r" using n by (simp add: zero_le_mult_iff)
  have "Suc k \<le> n" using k by simp
  then have "real (Suc k) \<le> real n" by (simp only: of_nat_le_iff)
  then have "r * real n < real n" using b(2) by linarith
  then have r1: "r < 1" using n by simp
  show "r \<in> {r. 0 \<le> r \<and> r < 1 \<and> nat \<lfloor>r * real n\<rfloor> = k}"
    using r0 r1 fl by simp
qed

lemma shuffleLoop_pick:
  assumes "int i < count" "movePool board n p \<noteq> []" "0 \<le> random i" "random i < 1"
  shows "nat \<lfloor>random i * real (length (movePool board n p))\<rfloor> < length (movePool board n p)
    \<and> shuffleLoop random count n i board p =
        shuffleLoop random count n (i + 1)
          (performMove board
             (movePool board n p ! nat \<lfloor>random i * real (length (movePool board n p))\<rfloor>))
          (int (from_tube
             (movePool board n p ! nat \<lfloor>random i * real (length (movePool board n p))\<rfloor>)))"
proof -
  let ?pool = "movePool board n p"
  have pos: "0 < length ?pool" using assms(2) by simp
  have rng: "0 \<le> \<lfloor>random i * real (length ?pool)\<rfloor>
      \<and> \<lfloor>random i * real (length ?pool)\<rfloor> < int (length ?pool)"
    by (rule floor_pick [OF assms(3,4) pos])
  then have "nat \<lfloor>random i * real (length ?pool)\<rfloor> < length ?pool" by linarith
  moreover have "shuffleLoop random count n i board p =
        shuffleLoop random count n (i + 1)
          (performMove board (?pool ! nat \<lfloor>random i * real (length ?pool)\<rfloor>))
          (int (from_tube (?pool ! nat \<lfloor>random i * real (length ?pool)\<rfloor>)))"
    using assms(1) pos rng by (subst shuffleLoop.simps) (simp add: Let_def)
  ultimately show ?thesis by simp
qed

lemma available_after_first:
  "availableMoves [exampleTube 0 [0, 0, 0], exampleTube 1 [1, 1, 1, 1], exampleTube 2 [0]] 3
     = [\<lparr>from_tube = 0, to_tube = 2\<rparr>, \<lparr>from_tube = 1, to_tube = 0\<rparr>,
        \<lparr>from_tube = 1, to_tube = 2\<rparr>, \<lparr>from_tube = 2, to_tube = 0\<rparr>]"
  by (simp add: availableMoves_def example_defs upt_rec numeral_eq_Suc)

lemma available_solved:
  "availableMoves [exampleTube 0 [0, 0, 0, 0], exampleTube 1 [1, 1, 1, 1], exampleTube 2 []] 3
     = [\<lparr>from_tube = 0, to_tube = 2\<rparr>, \<lparr>from_tube = 1, to_tube = 2\<rparr>]"
  by (simp add: availableMoves_def example_defs upt_rec numeral_eq_Suc)

text \<open>
  Claim C5, as the specification words it (only the exact reverse is left out), fails. On
  the solved board of two colours and one empty tube the draw 0 moves a ball from tube 0
  to tube 2. In the next iteration the move from tube 1 to tube 0 is legal and is not the
  reverse of that move, and it is not in the pool.
\<close>

theorem shuffle_only_reverse_counterexample:
  "movePool [exampleTube 0 [0, 0, 0, 0], exampleTube 1 [1, 1, 1, 1], exampleTube 2 []] 3 (- 1)
     ! nat \<lfloor>(0::real) * real (length (movePool
         [exampleTube 0 [0, 0, 0, 0], exampleTube 1 [1, 1, 1, 1], exampleTube 2 []] 3 (- 1)))\<rfloor>
     = \<lparr>from_tube = 0, to_tube = 2\<rparr>
   \<and> performMove [exampleTube 0 [0, 0, 0, 0], exampleTube 1 [1, 1, 1, 1], exampleTube 2 []]
        \<lparr>from_tube = 0, to_tube = 2\<rparr>
     = [exampleTube 0 [0, 0, 0], exampleTube 1 [1, 1, 1, 1], exampleTube 2 [0]]
   \<and> \<lparr>from_tube = 1, to_tube = 0\<rparr>
        \<in> set (availableMoves
             [exampleTube 0 [0, 0, 0], exampleTube 1 [1, 1, 1, 1], exampleTube 2 [0]] 3)
   \<and> \<lparr>from_tube = 1, to_tube = 0\<rparr> \<noteq> reverseMove \<lparr>from_tube = 0, to_tube = 2\<rparr>
   \<and> \<lparr>from_tube = 1, to_tube = 0\<rparr>
        \<notin> set (movePool
             [exampleTube 0 [0, 0, 0], exampleTube 1 [1, 1, 1, 1], exampleTube 2 [0]] 3 0)
   \<and> movePool [exampleTube 0 [0, 0, 0], exampleTube 1 [1, 1, 1, 1], exampleTube 2 [0]] 3 0
     \<noteq> claimedMovePool
          [exampleTube 0 [0, 0, 0], exampleTube 1 [1, 1, 1, 1], exampleTube 2 [0]] 3
          \<lparr>from_tube = 0, to_tube = 2\<rparr>"
  by (simp add: movePool_def claimedMovePool_def reverseMove_def Let_def
      available_solved available_after_first)
    (simp add: performMove_def example_defs)

text \<open>
  Claim C5, amended. In a shuffle iteration the legal moves are exactly the ordered pairs of
  distinct tubes with a ball in the source and room in the destination, each listed once.
  The pool is the legal moves whose destination is not \<open>previousSource\<close>, the source of
  the move before, when there is one, and all legal moves otherwise. A draw \<open>r\<close> in
  \<open>[0, 1)\<close> picks the move at index \<open>\<lfloor>r * length pool\<rfloor>\<close>, so each move of the pool is
  picked on an interval of draws of the same width; the move is made and its source is the
  next \<open>previousSource\<close>. Without a legal move the loop stops and returns the board.
\<close>

theorem shuffle_iteration_spec:
  "(\<forall>m. m \<in> set (availableMoves board n) \<longleftrightarrow>
        from_tube m < n \<and> to_tube m < n \<and> from_tube m \<noteq> to_tube m
        \<and> balls (board ! from_tube m) \<noteq> []
        \<and> length (balls (board ! to_tube m)) < capacity (board ! to_tube m))
   \<and> distinct (availableMoves board n)
   \<and> movePool board n p =
       (if \<exists>m \<in> set (availableMoves board n). int (to_tube m) \<noteq> p
        then filter (\<lambda>m. int (to_tube m) \<noteq> p) (availableMoves board n)
        else availableMoves board n)
   \<and> (\<forall>k < length (movePool board n p).
        {r. 0 \<le> r \<and> r < 1 \<and> nat \<lfloor>r * real (length (movePool board n p))\<rfloor> = k}
        = {real k / real (length (movePool board n p))
             ..< (real k + 1) / real (length (movePool board n p))})
   \<and> (int i < count \<and> availableMoves board n \<noteq> [] \<and> 0 \<le> random i \<and> random i < 1 \<longrightarrow>
        nat \<lfloor>random i * real (length (movePool board n p))\<rfloor> < length (movePool board n p)
        \<and> shuffleLoop random count n i board p =
            shuffleLoop random count n (i + 1)
              (performMove board
                (movePool board n p ! nat \<lfloor>random i * real (length (movePool board n p))\<rfloor>))
              (int (from_tube
                (movePool board n p ! nat \<lfloor>random i * real (length (movePool board n p))\<rfloor>))))
   \<and> (availableMoves board n = [] \<longrightarrow> shuffleLoop random count n i board p = Inr board)"
proof -
  let ?pool = "movePool board n p"
  have legal: "\<forall>m. m \<in> set (availableMoves board n) \<longleftrightarrow>
        from_tube m < n \<and> to_tube m < n \<and> from_tube m \<noteq> to_tube m
        \<and> balls (board ! from_tube m) \<noteq> []
        \<and> length (balls (board ! to_tube m)) < capacity (board ! to_tube m)"
    by (simp add: availableMoves_sound)
  have once: "distinct (availableMoves board n)" by (rule distinct_availableMoves)
  have pool: "?pool =
       (if \<exists>m \<in> set (availableMoves board n). int (to_tube m) \<noteq> p
        then filter (\<lambda>m. int (to_tube m) \<noteq> p) (availableMoves board n)
        else availableMoves board n)"
    by (rule movePool_cases)
  have uniform: "\<forall>k < length ?pool.
        {r. 0 \<le> r \<and> r < 1 \<and> nat \<lfloor>r * real (length ?pool)\<rfloor> = k}
        = {real k / real (length ?pool) ..< (real k + 1) / real (length ?pool)}"
    by (intro allI impI pick_interval) auto
  have step: "int i < count \<and> availableMoves board n \<noteq> [] \<and> 0 \<le> random i \<and> random i < 1 \<longrightarrow>
        nat \<lfloor>random i * real (length ?pool)\<rfloor> < length ?pool
        \<and> shuffleLoop random count n i board p =
            shuffleLoop random count n (i + 1)
              (performMove board (?pool ! nat \<lfloor>random i * real (length ?pool)\<rfloor>))
              (int (from_tube (?pool ! nat \<lfloor>random i * real (length ?pool)\<rfloor>)))"
  proof
    assume a: "int i < count \<and> availableMoves board n \<noteq> [] \<and> 0 \<le> random i \<and> random i < 1"
    then have "?pool \<noteq> []" by (simp add: movePool_empty)
    then show "nat \<lfloor>random i * real (length ?pool)\<rfloor> < length ?pool
        \<and> shuffleLoop random count n i board p =
            shuffleLoop random count n (i + 1)
              (performMove board (?pool ! nat \<lfloor>random i * real (length ?pool)\<rfloor>))
              (int (from_tube (?pool ! nat \<lfloor>random i * real (length ?pool)\<rfloor>)))"
      using a shuffleLoop_pick [of i count board n p random] by blast
  qed
  have stop: "availableMoves board n = [] \<longrightarrow> shuffleLoop random count n i board p = Inr board"
    by (auto intro: shuffleLoop_stop simp: movePool_empty)
  show ?thesis
    by (intro conjI) (fact legal once pool uniform step stop)+
qed

text \<open>An instance of C5: the second iteration after the move from tube 0 to tube 2, draw 1/2.\<close>

theorem shuffle_iteration_spec_witness:
  "int 1 < 2
   \<and> availableMoves [exampleTube 0 [0, 0, 0], exampleTube 1 [1, 1, 1, 1], exampleTube 2 [0]] 3
       \<noteq> []
   \<and> 0 \<le> (\<lambda>k. 1 / 2 :: real) 1 \<and> (\<lambda>k. 1 / 2 :: real) 1 < 1
   \<and> movePool [exampleTube 0 [0, 0, 0], exampleTube 1 [1, 1, 1, 1], exampleTube 2 [0]] 3 0
       = [\<lparr>from_tube = 0, to_tube = 2\<rparr>, \<lparr>from_tube = 1, to_tube = 2\<rparr>]
   \<and> shuffleLoop (\<lambda>k. 1 / 2) 2 3 1
        [exampleTube 0 [0, 0, 0], exampleTube 1 [1, 1, 1, 1], exampleTube 2 [0]] 0
     = shuffleLoop (\<lambda>k. 1 / 2) 2 3 (1 + 1)
        (performMove [exampleTube 0 [0, 0, 0], exampleTube 1 [1, 1, 1, 1], exampleTube 2 [0]]
           \<lparr>from_tube = 1, to_tube = 2\<rparr>) 1"
proof -
  let ?b = "[exampleTube 0 [0, 0, 0], exampleTube 1 [1, 1, 1, 1], exampleTube 2 [0]]"
  have pool: "movePool ?b 3 0 = [\<lparr>from_tube = 0, to_tube = 2\<rparr>, \<lparr>from_tube = 1, to_tube = 2\<rparr>]"
    by (simp add: movePool_def Let_def available_after_first)
  have h: "int 1 < 2 \<and> availableMoves ?b 3 \<noteq> [] \<and> 0 \<le> (\<lambda>k. 1 / 2 :: real) 1
      \<and> (\<lambda>k. 1 / 2 :: real) 1 < 1"
    by (simp add: available_after_first)
  have "shuffleLoop (\<lambda>k. 1 / 2) 2 3 1 ?b 0 =
      shuffleLoop (\<lambda>k. 1 / 2) 2 3 (1 + 1)
        (performMove ?b (movePool ?b 3 0 ! nat \<lfloor>(\<lambda>k. 1 / 2 :: real) 1 * real (length (movePool ?b 3 0))\<rfloor>))
        (int (from_tube (movePool ?b 3 0 ! nat \<lfloor>(\<lambda>k. 1 / 2 :: real) 1 * real (length (movePool ?b 3 0))\<rfloor>)))"
    using shuffle_iteration_spec [of ?b 3 0 1 2 "\<lambda>k. 1 / 2"] h by blast
  then have "shuffleLoop (\<lambda>k. 1 / 2) 2 3 1 ?b 0 =
      shuffleLoop (\<lambda>k. 1 / 2) 2 3 (1 + 1) (performMove ?b \<lparr>from_tube = 1, to_tube = 2\<rparr>) 1"
    by (simp add: pool)
  with h pool show ?thesis by simp
qed

subsection \<open>Facts about the reachable sessions\<close>

lemma find_id_mem: "i \<in> set (map id_tube board) \<Longrightarrow> \<exists>t. findTube board i = Some t"
  unfolding findTube_def by (cases "find (\<lambda>t. id_tube t = i) board") (auto simp: find_None_iff)

lemma initLevel_selection: "initLevel random uuidv4 l = Inr st \<Longrightarrow> selectionOk st"
  by (auto simp: initLevel_def Let_def selectionOk_def split: sum.splits)

lemma tubeClickUpdate_selection:
  "tubeClickUpdate st i = Inr st' \<Longrightarrow> selectionOk st \<Longrightarrow> selectionOk st'"
  by (auto simp: tubeClickUpdate_def selectionOk_def Let_def split: option.splits if_splits)

lemma handleTubeClick_selection:
  "handleTubeClick (Some st) i = Inr (Some st') \<Longrightarrow> selectionOk st \<Longrightarrow> selectionOk st'"
  using tubeClickUpdate_selection [of st i st']
  by (auto simp: handleTubeClick_def split: if_splits sum.splits)

lemma handleUndo_selection:
  "handleUndo (Some st) = Some st' \<Longrightarrow> selectionOk st \<Longrightarrow> selectionOk st'"
  by (auto simp: handleUndo_def selectionOk_def Let_def split: if_splits)

lemma handleReset_selection: "handleReset (Some st) = Some st' \<Longrightarrow> selectionOk st'"
  by (auto simp: handleReset_def selectionOk_def Let_def)

lemma reachable_selectionOk: "reachable st \<Longrightarrow> selectionOk st"
proof (induction rule: reachable.induct)
  case (start random uuidv4 levelIndex st)
  then show ?case by (rule initLevel_selection)
next
  case (click st i st')
  then show ?case using handleTubeClick_selection by blast
next
  case (undo st st')
  then show ?case using handleUndo_selection by blast
next
  case (reset st st')
  then show ?case using handleReset_selection by blast
qed

lemma click_no_error:
  assumes ok: "selectionOk st" and i: "i \<in> set (map id_tube (tubes st))"
  shows "\<exists>st'. handleTubeClick (Some st) i = Inr (Some st')"
proof -
  obtain dst where dst: "findTube (tubes st) i = Some dst" using find_id_mem [OF i] by blast
  show ?thesis
    using ok dst
    by (auto simp: handleTubeClick_def tubeClickUpdate_def selectionOk_def Let_def
        split: option.splits)
qed

text \<open>
  Claim C10. In every session reached from a started level by clicks on tubes of the
  board, undo and reset, a selected id is the id of a tube of the board that holds a ball,
  and the id of every tube of the board is found; so a click finds its source and its
  destination and returns a session.
\<close>

theorem reachable_selection_spec:
  assumes "reachable st"
  shows "(\<forall>s. selectedTubeId st = Some s \<longrightarrow>
            (\<exists>src. findTube (tubes st) s = Some src \<and> balls src \<noteq> []))
       \<and> (\<forall>i \<in> set (map id_tube (tubes st)).
            (\<exists>dst. findTube (tubes st) i = Some dst)
            \<and> (\<exists>st'. handleTubeClick (Some st) i = Inr (Some st')))"
proof -
  have ok: "selectionOk st" using assms by (rule reachable_selectionOk)
  have "\<forall>s. selectedTubeId st = Some s \<longrightarrow>
            (\<exists>src. findTube (tubes st) s = Some src \<and> balls src \<noteq> [])"
    using ok by (auto simp: selectionOk_def split: option.splits)
  moreover have "\<forall>i \<in> set (map id_tube (tubes st)).
            (\<exists>dst. findTube (tubes st) i = Some dst)
            \<and> (\<exists>st'. handleTubeClick (Some st) i = Inr (Some st'))"
    using find_id_mem click_no_error [OF ok] by blast
  ultimately show ?thesis by blast
qed

lemma findTube_nth:
  assumes inv: "boardInv n board" and k: "k < n"
  shows "findTube board (int k) = Some (board ! k)"
proof -
  have len: "length board = n" using inv by (simp add: boardInv_def)
  have "int k \<in> set (map id_tube board)"
    using inv k len by (force simp: boardInv_def in_set_conv_nth)
  then obtain t where t: "findTube board (int k) = Some t" using find_id_mem by blast
  then obtain j where j: "j < length board" "board ! j = t" using findTube_index by blast
  have "id_tube t = int k" using findTube_Some [OF t] by simp
  moreover have "id_tube (board ! j) = int j" using inv j(1) len by (simp add: boardInv_def)
  ultimately have "j = k" using j(2) by simp
  with t j(2) show ?thesis by simp
qed

text \<open>An instance of C10: level 0 is started and a tube that holds a ball is clicked.\<close>

theorem reachable_selection_spec_witness:
  "\<exists>st s src. reachable st \<and> selectedTubeId st = Some s
      \<and> findTube (tubes st) s = Some src \<and> balls src \<noteq> []"
proof -
  let ?c = "getLevelConfig 0"
  have c: "numColors ?c = 4" "numEmpty ?c = 2"
    by (simp_all add: getLevelConfig_def Let_def colorSteps_def BALL_COLORS_def)
  obtain board where g: "generateLevel (\<lambda>k. 0) (\<lambda>k. ''ball'') ?c = Inr board"
    and b: "boardInv (nat (numColors ?c + numEmpty ?c)) board"
    and col: "colorInv (numColors ?c) board"
    using generateLevel_inv [of ?c "\<lambda>k. 0" "\<lambda>k. ''ball''"] c by auto
  obtain st0 where st0: "initLevel (\<lambda>k. 0) (\<lambda>k. ''ball'') 0 = Inr st0"
    "tubes st0 = board" "selectedTubeId st0 = None" "\<not> isCompleted st0" "\<not> isFailed st0"
    using g by (simp add: initLevel_def Let_def)
  have r0: "reachable st0" using st0(1) by (rule reachable.start)
  have "countBalls (\<lambda>b. colorId b = 0) board = TUBE_CAPACITY"
    using col c by (simp add: colorInv_def)
  then have "0 < countBalls (\<lambda>b. colorId b = 0) board" by (simp add: TUBE_CAPACITY_def)
  then obtain k where k: "k < length board" "balls (board ! k) \<noteq> []"
    using countBalls_pos by blast
  have len: "length board = nat (numColors ?c + numEmpty ?c)" using b by (simp add: boardInv_def)
  have f: "findTube board (int k) = Some (board ! k)"
    using findTube_nth [OF b] k(1) len by simp
  have click: "handleTubeClick (Some st0) (int k) = Inr (Some (st0\<lparr>selectedTubeId := Some (int k)\<rparr>))"
    using st0 f k(2) by (simp add: handleTubeClick_def tubeClickUpdate_def)
  have "int k \<in> set (map id_tube (tubes st0))"
    using findTube_Some [OF f] st0(2) by force
  then have r1: "reachable (st0\<lparr>selectedTubeId := Some (int k)\<rparr>)"
    using reachable.click [OF r0 _ click] by simp
  show ?thesis
    using reachable_selection_spec [OF r1] r1 by auto
qed

end
